theory Spec2Isabelle
  imports Main
begin

section \<open>Python strings\<close>

text \<open>
  A Python \<open>str\<close> is modelled as a \<open>string\<close> whose characters are the code points
  0..255. The string operations the agent uses (\<open>strip\<close>, \<open>lower\<close>, \<open>startswith\<close>,
  \<open>in\<close> and \<open>replace\<close> with an empty replacement) are modelled on that range as
  CPython defines them.
\<close>

definition nl :: char where
  "nl = CHR 0x0A"

definition is_space :: "char \<Rightarrow> bool" where
  \<comment> \<open>\<open>str.isspace\<close> on one code point below 256: TAB..CR, FS..US, space, NEL, NBSP.\<close>
  "is_space c =
     (let n = (of_char c :: nat)
      in (9 \<le> n \<and> n \<le> 13) \<or> (28 \<le> n \<and> n \<le> 32) \<or> n = 133 \<or> n = 160)"

definition lower_char :: "char \<Rightarrow> char" where
  \<comment> \<open>\<open>str.lower\<close> on one code point below 256: A..Z and the Latin-1 capitals.\<close>
  "lower_char c =
     (let n = (of_char c :: nat)
      in if (65 \<le> n \<and> n \<le> 90) \<or> (192 \<le> n \<and> n \<le> 222 \<and> n \<noteq> 215)
         then char_of (n + 32) else c)"

definition lower :: "string \<Rightarrow> string" where
  "lower s = map lower_char s"

definition strip :: "string \<Rightarrow> string" where
  \<comment> \<open>\<open>s.strip()\<close>: leading and trailing whitespace removed.\<close>
  "strip s = rev (dropWhile is_space (rev (dropWhile is_space s)))"

definition startswith :: "string \<Rightarrow> string \<Rightarrow> bool" where
  \<comment> \<open>\<open>s.startswith(p)\<close>\<close>
  "startswith s p = (take (length p) s = p)"

fun contains :: "string \<Rightarrow> string \<Rightarrow> bool" where
  \<comment> \<open>\<open>tok in s\<close>: \<open>tok\<close> occurs somewhere in \<open>s\<close>.\<close>
  "contains tok [] = (tok = [])"
| "contains tok (c # cs) = (startswith (c # cs) tok \<or> contains tok cs)"

function replace_empty :: "string \<Rightarrow> string \<Rightarrow> string" where
  \<comment> \<open>\<open>s.replace(old, "")\<close>: the occurrences of \<open>old\<close> are deleted, scanning from
      the left, each match starting after the end of the one before.\<close>
  "replace_empty old [] = []"
| "replace_empty old (c # cs) =
     (if old \<noteq> [] \<and> startswith (c # cs) old
      then replace_empty old (drop (length old) (c # cs))
      else c # replace_empty old cs)"
  by pat_completeness auto
termination
  by (relation "measure (\<lambda>(old, s). length s)") (auto simp: startswith_def)

section \<open>The graph state and the collaborators\<close>

text \<open>
  \<open>AgentState\<close> is the \<open>TypedDict\<close> of the agent: every key is required, and
  \<open>data\<close> and \<open>answer\<close> are \<open>Optional[str]\<close> (\<open>None\<close> is Python's \<open>None\<close>).
  With every key present, the defaults of the \<open>state.get(key, default)\<close> calls are
  never taken.
\<close>

record AgentState =
  question :: string
  schema :: string
  sql_query :: string
  data :: "string option"
  answer :: "string option"
  retries :: int

text \<open>
  A node returns a dictionary holding only the keys it sets; \<open>None\<close> here means that
  the key is not in the returned dictionary.
\<close>

record node_output =
  out_sql_query :: "string option"
  out_data :: "string option"
  out_answer :: "string option"
  out_retries :: "int option"

definition merge_output :: "AgentState \<Rightarrow> node_output \<Rightarrow> AgentState" where
  \<comment> \<open>The graph writes each returned key over the state's value of that key.\<close>
  "merge_output st u =
     st\<lparr>sql_query := (case out_sql_query u of None \<Rightarrow> sql_query st | Some v \<Rightarrow> v),
        data := (case out_data u of None \<Rightarrow> data st | Some v \<Rightarrow> Some v),
        answer := (case out_answer u of None \<Rightarrow> answer st | Some v \<Rightarrow> Some v),
        retries := (case out_retries u of None \<Rightarrow> retries st | Some v \<Rightarrow> v)\<rparr>"

text \<open>
  The model (\<open>llm\<close>) and the database (\<open>db\<close>) are outside the repository. Each is a
  function from its argument and its own state \<open>'w\<close> to a result and the next state;
  \<open>Inl msg\<close> is a raised \<open>Exception\<close> whose text is \<open>msg\<close>, \<open>Inr txt\<close> is the
  returned text (\<open>.content\<close> of the model's reply, \<open>str(result)\<close> of the query's
  result). The world also records every prompt and every query handed over.
  Printing to the console is left out.
\<close>

type_synonym 'w collaborator = "string \<Rightarrow> 'w \<Rightarrow> (string + string) \<times> 'w"

record 'w world =
  ext :: 'w
  llm_prompts :: "string list"
  db_queries :: "string list"

definition llm_invoke ::
  "'w collaborator \<Rightarrow> string \<Rightarrow> 'w world \<Rightarrow> (string + string) \<times> 'w world" where
  "llm_invoke llm prompt w =
     (case llm prompt (ext w) of
        (r, e') \<Rightarrow> (r, w\<lparr>ext := e', llm_prompts := llm_prompts w @ [prompt]\<rparr>))"

definition db_run ::
  "'w collaborator \<Rightarrow> string \<Rightarrow> 'w world \<Rightarrow> (string + string) \<times> 'w world" where
  "db_run db query w =
     (case db query (ext w) of
        (r, e') \<Rightarrow> (r, w\<lparr>ext := e', db_queries := db_queries w @ [query]\<rparr>))"

section \<open>Generation\<close>

definition system_prompt :: string where
  \<comment> \<open>The dash after "queries" is U+2014 in the source; it is written here as its three
      UTF-8 bytes.\<close>
  "system_prompt =
     ''You are a SQL generator. Your only job is to write SQL queries ''
     @ [CHR 0xE2, CHR 0x80, CHR 0x94]
     @ '' no text, no explanation, no markdown. ''
     @ ''You will be given a database schema and a natural language question. ''
     @ ''Your response must contain only one valid SQL query ending with a semicolon. ''
     @ ''The query must use only tables and columns present in the given schema. ''
     @ ''Do NOT include ```sql or ``` anywhere.''"

definition generation_prompt :: "AgentState \<Rightarrow> string" where
  "generation_prompt st =
     (let prompt = [nl] @ system_prompt @ [nl, nl] @ ''Database Schema:'' @ [nl]
                   @ schema st @ [nl, nl] @ ''User Question:'' @ [nl]
                   @ question st @ [nl]
      in case data st of
           None \<Rightarrow> prompt
         | Some last_error \<Rightarrow>
             if last_error \<noteq> [] \<and> contains ''Error:'' last_error
             then prompt @ [nl] @ ''The previous query failed with this error: ''
                  @ last_error @ [nl] @ ''Please correct and output only SQL.''
             else prompt)"

definition sanitize :: "string \<Rightarrow> string" where
  "sanitize s =
     strip (replace_empty ''SQL:'' (replace_empty ''*/''
       (replace_empty ''```'' (replace_empty ''```sql'' (strip s)))))"

definition sql_verbs :: "string list" where
  "sql_verbs = [''select'', ''insert'', ''update'', ''delete'', ''create'']"

definition starts_with_verb :: "string \<Rightarrow> bool" where
  \<comment> \<open>\<open>s.lower().startswith(("select", "insert", "update", "delete", "create"))\<close>\<close>
  "starts_with_verb s = list_ex (startswith (lower s)) sql_verbs"

definition invalid_sql :: "string \<Rightarrow> bool" where
  "invalid_sql s = (s = [] \<or> length s < 10 \<or> \<not> starts_with_verb s)"

definition generate_sql_node ::
  "'w collaborator \<Rightarrow> AgentState \<Rightarrow> 'w world \<Rightarrow> node_output \<times> 'w world" where
  "generate_sql_node llm st w =
     (case llm_invoke llm (generation_prompt st) w of
        (Inl e, w') \<Rightarrow>
          (\<lparr>out_sql_query = Some [],
            out_data = Some (''Error during SQL generation: '' @ e),
            out_answer = None, out_retries = Some (retries st)\<rparr>, w')
      | (Inr content, w') \<Rightarrow>
          (let sql = sanitize (strip content)
           in if invalid_sql sql
              then (\<lparr>out_sql_query = Some [],
                     out_data = Some ''Error: Invalid SQL generated.'',
                     out_answer = None, out_retries = Some (retries st)\<rparr>, w')
              else (\<lparr>out_sql_query = Some sql, out_data = None,
                     out_answer = None, out_retries = Some (retries st)\<rparr>, w')))"

section \<open>Execution\<close>

definition restrip :: "string \<Rightarrow> string" where
  \<comment> \<open>\<open>query.strip().replace("*/", "").replace("```", "").strip()\<close>\<close>
  "restrip q = strip (replace_empty ''```'' (replace_empty ''*/'' (strip q)))"

definition execute_sql_node ::
  "'w collaborator \<Rightarrow> AgentState \<Rightarrow> 'w world \<Rightarrow> node_output \<times> 'w world" where
  "execute_sql_node db st w =
     (if sql_query st = []
      then (\<lparr>out_sql_query = None, out_data = Some ''Error: No valid SQL to execute.'',
             out_answer = None, out_retries = Some (retries st)\<rparr>, w)
      else let query = restrip (sql_query st)
           in if \<not> starts_with_verb query
              then (\<lparr>out_sql_query = None,
                     out_data = Some ''Error: Invalid SQL, stopping execution.'',
                     out_answer = None, out_retries = Some (retries st)\<rparr>, w)
              else (case db_run db query w of
                      (Inr result, w') \<Rightarrow>
                        (\<lparr>out_sql_query = None, out_data = Some result,
                          out_answer = None, out_retries = Some (retries st)\<rparr>, w')
                    | (Inl e, w') \<Rightarrow>
                        (\<lparr>out_sql_query = None, out_data = Some (''Error: '' @ e),
                          out_answer = None, out_retries = Some (retries st)\<rparr>, w')))"

section \<open>Synthesis\<close>

definition synthesis_prompt :: "AgentState \<Rightarrow> string" where
  \<comment> \<open>An f-string renders \<open>None\<close> as the text \<open>None\<close>.\<close>
  "synthesis_prompt st =
     [nl] @ ''You are a data analyst. The user asked a question and the database returned this data.''
     @ [nl, nl] @ ''User Question:'' @ [nl] @ question st @ [nl, nl]
     @ ''Database Result:'' @ [nl]
     @ (case data st of None \<Rightarrow> ''None'' | Some d \<Rightarrow> d) @ [nl, nl]
     @ ''Write a clear, concise answer summarizing the result.'' @ [nl]
     @ ''- If data is empty or contains an error, explain that politely.'' @ [nl]
     @ ''- Do not add information not in the data.'' @ [nl]"

definition synthesize_answer_node ::
  "'w collaborator \<Rightarrow> AgentState \<Rightarrow> 'w world \<Rightarrow> node_output \<times> 'w world" where
  "synthesize_answer_node llm st w =
     (case llm_invoke llm (synthesis_prompt st) w of
        (Inr content, w') \<Rightarrow>
          (\<lparr>out_sql_query = None, out_data = None,
            out_answer = Some (strip content), out_retries = Some (retries st)\<rparr>, w')
      | (Inl e, w') \<Rightarrow>
          (\<lparr>out_sql_query = None, out_data = None,
            out_answer = Some (''Error synthesizing answer: '' @ e),
            out_retries = Some (retries st)\<rparr>, w'))"

section \<open>The retry decision\<close>

datatype branch = synthesize | retry

datatype py_exception = TypeError

definition should_continue_or_retry ::
  "AgentState \<Rightarrow> py_exception + (branch \<times> AgentState)" where
  \<comment> \<open>Returns the branch and the state as the function leaves it: on the retry branch
      it has written \<open>retries + 1\<close> into the state it was given. \<open>"Error:" in None\<close>
      raises \<open>TypeError\<close>.\<close>
  "should_continue_or_retry st =
     (if retries st \<ge> 3 then Inr (synthesize, st)
      else case data st of
             None \<Rightarrow> Inl TypeError
           | Some d \<Rightarrow>
               if contains ''Error:'' d
               then Inr (retry, st\<lparr>retries := retries st + 1\<rparr>)
               else Inr (synthesize, st))"

section \<open>The graph\<close>

text \<open>
  \<open>get_agent_app\<close> wires the graph: entry point \<open>generate_sql\<close>, an edge from
  \<open>generate_sql\<close> to \<open>execute_sql\<close>, the conditional edge out of \<open>execute_sql\<close>
  and an edge from \<open>synthesize_answer\<close> to the end. The engine that runs the graph
  is a library; \<open>stream_from\<close> follows the edges and yields one event per node run, as
  \<open>agent_app.stream\<close> does.

  The graph state changes only by the dictionaries the nodes return, merged key by key.
  \<open>should_continue_or_retry\<close> is the router of the conditional edge: it is given the
  state to read and returns the name of a branch. What it writes into its argument
  (\<open>retries + 1\<close> on the retry branch) is not a node's output and does not reach the
  graph state: the next node runs on the state as the nodes' outputs left it.

  The first argument is the caller's \<open>recursion_limit\<close>. Every node run takes one step
  and reaching the end takes one more, so a run of \<open>N\<close> nodes finishes only under a
  limit above \<open>N\<close>; otherwise the stream raises \<open>GraphRecursionError\<close> after the events
  it has yielded. An error result carries those events.
\<close>

datatype node = generate_sql | execute_sql | synthesize_answer

datatype run_error = GraphRecursionError | Raised py_exception

type_synonym events = "(node \<times> node_output) list"

type_synonym 'w run_result = "AgentState \<times> 'w world \<times> events"

fun stream_from ::
  "nat \<Rightarrow> 'w collaborator \<Rightarrow> 'w collaborator \<Rightarrow> node \<Rightarrow> AgentState \<Rightarrow> 'w world
    \<Rightarrow> events \<Rightarrow> (run_error \<times> events) + 'w run_result" where
  "stream_from 0 llm db n st w evs = Inl (GraphRecursionError, evs)"
| "stream_from (Suc k) llm db generate_sql st w evs =
     (case generate_sql_node llm st w of
        (u, w') \<Rightarrow>
          stream_from k llm db execute_sql (merge_output st u) w'
            (evs @ [(generate_sql, u)]))"
| "stream_from (Suc k) llm db execute_sql st w evs =
     (case execute_sql_node db st w of
        (u, w') \<Rightarrow>
          (case should_continue_or_retry (merge_output st u) of
             Inl e \<Rightarrow> Inl (Raised e, evs @ [(execute_sql, u)])
           | Inr (retry, written) \<Rightarrow>
               stream_from k llm db generate_sql (merge_output st u) w'
                 (evs @ [(execute_sql, u)])
           | Inr (synthesize, written) \<Rightarrow>
               stream_from k llm db synthesize_answer (merge_output st u) w'
                 (evs @ [(execute_sql, u)])))"
| "stream_from (Suc k) llm db synthesize_answer st w evs =
     (case synthesize_answer_node llm st w of
        (u, w') \<Rightarrow>
          if k = 0 then Inl (GraphRecursionError, evs @ [(synthesize_answer, u)])
          else Inr (merge_output st u, w', evs @ [(synthesize_answer, u)]))"

definition inputs :: "string \<Rightarrow> string \<Rightarrow> AgentState" where
  \<comment> \<open>The initial state the chat page builds for a question.\<close>
  "inputs q sch =
     \<lparr>question = q, schema = sch, sql_query = [], data = Some [], answer = Some [],
      retries = 0\<rparr>"

definition new_world :: "'w \<Rightarrow> 'w world" where
  "new_world e = \<lparr>ext = e, llm_prompts = [], db_queries = []\<rparr>"

definition stream ::
  "nat \<Rightarrow> 'w collaborator \<Rightarrow> 'w collaborator \<Rightarrow> string \<Rightarrow> string \<Rightarrow> 'w world
    \<Rightarrow> (run_error \<times> events) + 'w run_result" where
  \<comment> \<open>\<open>agent_app.stream(inputs, {"recursion_limit": limit})\<close>; the chat page passes 10.\<close>
  "stream limit llm db q sch w = stream_from limit llm db generate_sql (inputs q sch) w []"

definition nodes_run :: "events \<Rightarrow> node list" where
  "nodes_run evs = map fst evs"

section \<open>Observations on a run\<close>

definition retries_seen :: "(node \<times> node_output) list \<Rightarrow> int list" where
  \<comment> \<open>The \<open>retries\<close> values of the events of a run, in order.\<close>
  "retries_seen evs = List.map_filter (\<lambda>(n, u). out_retries u) evs"

section \<open>Stubs for the collaborators\<close>

definition fixed_llm :: "string \<Rightarrow> 'w collaborator" where
  \<comment> \<open>A model that answers every prompt with the same text.\<close>
  "fixed_llm t prompt s = (Inr t, s)"

definition fixed_db :: "string \<Rightarrow> 'w collaborator" where
  \<comment> \<open>A database that answers every query with the same result.\<close>
  "fixed_db r query s = (Inr r, s)"

definition failing_db :: "string \<Rightarrow> 'w collaborator" where
  \<comment> \<open>A database that raises on every query.\<close>
  "failing_db e query s = (Inl e, s)"

definition fenced_select_1 :: string where
  \<comment> \<open>An opening fence tagged \<open>sql\<close>, a newline, \<open>SELECT 1;\<close>, a newline, a closing fence.\<close>
  "fenced_select_1 = ''```sql'' @ [nl] @ ''SELECT 1;'' @ [nl] @ ''```''"

definition flaky_db :: "string \<Rightarrow> string \<Rightarrow> string \<Rightarrow> nat collaborator" where
  \<comment> \<open>A database whose state counts the queries run so far: it raises on the first two
      and returns \<open>r\<close> from the third on.\<close>
  "flaky_db e1 e2 r query n =
     (if n = 0 then Inl e1 else if n = 1 then Inl e2 else Inr r, Suc n)"

section \<open>Measures and reference texts for sanitization\<close>

definition non_space :: "string \<Rightarrow> string" where
  \<comment> \<open>The characters of a text that are not whitespace.\<close>
  "non_space s = filter (\<lambda>c. \<not> is_space c) s"

definition fences_only :: "string \<Rightarrow> string" where
  \<comment> \<open>A text with only whitespace and the fence markers removed: sanitization without
      its last two replacements.\<close>
  "fences_only s = strip (replace_empty ''```'' (replace_empty ''```sql'' (strip s)))"

definition quoted_query :: string where
  \<comment> \<open>A query with \<open>*/\<close> twice inside a single-quoted literal.\<close>
  "quoted_query = ''SELECT '' @ [CHR 0x27] @ ''a*/b*/c'' @ [CHR 0x27] @ '' FROM crops;''"

definition nested_query :: string where
  \<comment> \<open>A query whose literal is \<open>**//\<close>: deleting the inner \<open>*/\<close> leaves the outer
      two characters side by side.\<close>
  "nested_query = ''SELECT '' @ [CHR 0x27] @ ''**//'' @ [CHR 0x27] @ '' FROM crops;''"

definition sanitize_tokens :: "string list" where
  \<comment> \<open>The tokens sanitization deletes, in the order of its \<open>replace\<close> calls.\<close>
  "sanitize_tokens = [''```sql'', ''```'', ''*/'', ''SQL:'']"

definition joined :: "string \<Rightarrow> string list \<Rightarrow> string \<Rightarrow> string" where
  \<comment> \<open>The pieces \<open>ps\<close>, each followed by the token, and then the last piece \<open>q\<close>.\<close>
  "joined tok ps q = concat (map (\<lambda>p. p @ tok) ps) @ q"

section \<open>Frame lemmas of the nodes\<close>

lemma generate_sql_node_retries:
  "out_retries (fst (generate_sql_node llm st w)) = Some (retries st)"
  by (simp add: generate_sql_node_def Let_def split: prod.splits sum.splits)

lemma execute_sql_node_retries:
  "out_retries (fst (execute_sql_node db st w)) = Some (retries st)"
  by (simp add: execute_sql_node_def Let_def split: prod.splits sum.splits)

lemma synthesize_answer_node_retries:
  "out_retries (fst (synthesize_answer_node llm st w)) = Some (retries st)"
  by (simp add: synthesize_answer_node_def split: prod.splits sum.splits)

lemma merge_output_retries:
  "out_retries u = Some (retries st) \<Longrightarrow> retries (merge_output st u) = retries st"
  by (simp add: merge_output_def)

lemma execute_sql_node_data:
  "\<exists>d. out_data (fst (execute_sql_node db st w)) = Some d"
  by (simp add: execute_sql_node_def Let_def split: prod.splits sum.splits)

lemma decision_cases:
  "should_continue_or_retry st = Inr (b, st') \<Longrightarrow>
     (b = retry \<and> retries st < 3 \<and> st' = st\<lparr>retries := retries st + 1\<rparr>)
     \<or> (b = synthesize \<and> st' = st)"
  by (auto simp: should_continue_or_retry_def split: if_splits option.splits)

section \<open>The retry decision below the budget\<close>

text \<open>
  C2 as stated: below the budget the decision retries exactly when \<open>data\<close> begins with
  \<open>Error:\<close>. The source tests \<open>"Error:" in data\<close>, so a result that holds the marker
  further right is retried as well: here the decision is taken on a result that does not
  begin with the marker, and the retry branch is returned with \<open>retries\<close> raised to 1.
\<close>

theorem retry_decision_prefix_counterexample:
  "retries ((inputs ''q'' ''s'')\<lparr>data := Some ''[(Error: none, 1)]''\<rparr>) < 3
   \<and> \<not> startswith ''[(Error: none, 1)]'' ''Error:''
   \<and> should_continue_or_retry ((inputs ''q'' ''s'')\<lparr>data := Some ''[(Error: none, 1)]''\<rparr>)
       = Inr (retry, (inputs ''q'' ''s'')\<lparr>data := Some ''[(Error: none, 1)]'', retries := 1\<rparr>)"
  by (simp add: should_continue_or_retry_def inputs_def startswith_def)

text \<open>
  C2, amended: when \<open>retries\<close> is below 3 and \<open>data\<close> is a string, the decision returns
  the retry branch, with \<open>retries\<close> raised by exactly 1, if and only if \<open>data\<close> contains
  \<open>Error:\<close> somewhere; otherwise it returns the synthesis branch and leaves the state as
  it is.
\<close>

theorem retry_decision_below_budget:
  assumes "retries st < 3" and "data st = Some d"
  shows "should_continue_or_retry st =
           (if contains ''Error:'' d then Inr (retry, st\<lparr>retries := retries st + 1\<rparr>)
            else Inr (synthesize, st))"
  using assms by (simp add: should_continue_or_retry_def)

theorem retry_decision_below_budget_witness:
  "retries ((inputs ''q'' ''s'')\<lparr>data := Some ''Error: no such table''\<rparr>) < 3
   \<and> data ((inputs ''q'' ''s'')\<lparr>data := Some ''Error: no such table''\<rparr>) = Some ''Error: no such table''
   \<and> should_continue_or_retry ((inputs ''q'' ''s'')\<lparr>data := Some ''Error: no such table''\<rparr>)
       = Inr (retry, (inputs ''q'' ''s'')\<lparr>data := Some ''Error: no such table'', retries := 1\<rparr>)"
  using retry_decision_below_budget
    [of "(inputs ''q'' ''s'')\<lparr>data := Some ''Error: no such table''\<rparr>" "''Error: no such table''"]
  by (simp add: inputs_def startswith_def)

section \<open>Execution\<close>

text \<open>
  C8: when the query passes the checks of the execution node and the database raises
  an exception with text \<open>e\<close> on it, the node returns normally: \<open>data\<close> is
  \<open>Error: \<close> followed by \<open>e\<close>, \<open>retries\<close> is unchanged, and the world has moved on by
  that one query. The node's result is always a returned dictionary, never an exception.
\<close>

theorem execute_catches_store_exception:
  assumes "sql_query st \<noteq> []" and "starts_with_verb (restrip (sql_query st))"
    and "db (restrip (sql_query st)) (ext w) = (Inl e, s')"
  shows "execute_sql_node db st w =
           (\<lparr>out_sql_query = None, out_data = Some (''Error: '' @ e),
             out_answer = None, out_retries = Some (retries st)\<rparr>,
            w\<lparr>ext := s', db_queries := db_queries w @ [restrip (sql_query st)]\<rparr>)"
  using assms by (simp add: execute_sql_node_def db_run_def)

theorem execute_catches_store_exception_witness:
  "sql_query ((inputs ''q'' ''t'')\<lparr>sql_query := ''SELECT * FROM crops;''\<rparr>) \<noteq> []
   \<and> starts_with_verb (restrip (sql_query ((inputs ''q'' ''t'')\<lparr>sql_query := ''SELECT * FROM crops;''\<rparr>)))
   \<and> failing_db ''no such table: crops''
         (restrip (sql_query ((inputs ''q'' ''t'')\<lparr>sql_query := ''SELECT * FROM crops;''\<rparr>)))
         (ext (new_world ())) = (Inl ''no such table: crops'', ())
   \<and> execute_sql_node (failing_db ''no such table: crops'')
         ((inputs ''q'' ''t'')\<lparr>sql_query := ''SELECT * FROM crops;''\<rparr>) (new_world ())
       = (\<lparr>out_sql_query = None, out_data = Some ''Error: no such table: crops'',
           out_answer = None, out_retries = Some 0\<rparr>,
          \<lparr>ext = (), llm_prompts = [], db_queries = [''SELECT * FROM crops;'']\<rparr>)"
proof -
  let ?st = "(inputs ''q'' ''t'')\<lparr>sql_query := ''SELECT * FROM crops;''\<rparr>"
  have q: "sql_query ?st = ''SELECT * FROM crops;''" by (simp add: inputs_def)
  have r: "restrip ''SELECT * FROM crops;'' = ''SELECT * FROM crops;''" by code_simp
  have h1: "sql_query ?st \<noteq> []" by (simp add: inputs_def)
  have h2: "starts_with_verb (restrip (sql_query ?st))" unfolding q r by code_simp
  have h3: "failing_db ''no such table: crops'' (restrip (sql_query ?st)) (ext (new_world ()))
      = (Inl ''no such table: crops'', ())"
    by (simp add: failing_db_def)
  from execute_catches_store_exception
      [where db = "failing_db ''no such table: crops''" and w = "new_world ()", OF h1 h2 h3]
    h1 h2 h3
  show ?thesis
    by (simp add: q r new_world_def inputs_def)
qed

text \<open>
  C4 as stated: a \<open>sql_query\<close> that fails the generation node's validation is never
  submitted. The execution node checks emptiness and the verb prefix, not the length:
  the 8-character query below fails the generation node's validation and is run.
\<close>

theorem execute_length_counterexample:
  "invalid_sql ''select 1''
   \<and> execute_sql_node (fixed_db ''[(1,)]'') ((inputs ''q'' ''t'')\<lparr>sql_query := ''select 1''\<rparr>)
         (new_world ())
       = (\<lparr>out_sql_query = None, out_data = Some ''[(1,)]'', out_answer = None,
           out_retries = Some 0\<rparr>,
          \<lparr>ext = (), llm_prompts = [], db_queries = [''select 1'']\<rparr>)"
proof
  show "invalid_sql ''select 1''" by code_simp
  show "execute_sql_node (fixed_db ''[(1,)]'') ((inputs ''q'' ''t'')\<lparr>sql_query := ''select 1''\<rparr>)
         (new_world ())
       = (\<lparr>out_sql_query = None, out_data = Some ''[(1,)]'', out_answer = None,
           out_retries = Some 0\<rparr>,
          \<lparr>ext = (), llm_prompts = [], db_queries = [''select 1'']\<rparr>)"
    by code_simp
qed

text \<open>
  C4, amended: when \<open>sql_query\<close> is empty, or its re-stripped text (surrounding
  whitespace, \<open>*/\<close> and the fence marker removed) does not begin, whatever the case of
  its letters, with one of the five verbs, the execution node returns an error text in
  \<open>data\<close> and leaves the world as it was: nothing is submitted to the database.
\<close>

theorem execute_short_circuit:
  assumes "sql_query st = [] \<or> \<not> starts_with_verb (restrip (sql_query st))"
  shows "execute_sql_node db st w =
           (\<lparr>out_sql_query = None,
             out_data = Some (if sql_query st = [] then ''Error: No valid SQL to execute.''
                              else ''Error: Invalid SQL, stopping execution.''),
             out_answer = None, out_retries = Some (retries st)\<rparr>, w)"
  using assms by (auto simp: execute_sql_node_def)

theorem execute_short_circuit_witness:
  "(sql_query ((inputs ''q'' ''t'')\<lparr>sql_query := ''DROP TABLE crops;''\<rparr>) = []
      \<or> \<not> starts_with_verb (restrip (sql_query ((inputs ''q'' ''t'')\<lparr>sql_query := ''DROP TABLE crops;''\<rparr>))))
   \<and> execute_sql_node (fixed_db ''[]'') ((inputs ''q'' ''t'')\<lparr>sql_query := ''DROP TABLE crops;''\<rparr>)
         (new_world ())
       = (\<lparr>out_sql_query = None, out_data = Some ''Error: Invalid SQL, stopping execution.'',
           out_answer = None, out_retries = Some 0\<rparr>, new_world ())"
proof -
  let ?st = "(inputs ''q'' ''t'')\<lparr>sql_query := ''DROP TABLE crops;''\<rparr>"
  have q: "sql_query ?st = ''DROP TABLE crops;''" by (simp add: inputs_def)
  have n: "\<not> starts_with_verb (restrip ''DROP TABLE crops;'')" by code_simp
  have h: "sql_query ?st = [] \<or> \<not> starts_with_verb (restrip (sql_query ?st))"
    unfolding q using n by simp
  from execute_short_circuit [OF h, of "fixed_db ''[]''" "new_world ()"] h show ?thesis
    by (simp add: inputs_def)
qed

section \<open>Facts about the string operations\<close>

lemma startswith_iff: "startswith s p \<longleftrightarrow> (\<exists>r. s = p @ r)"
  unfolding startswith_def
  by (metis append_eq_conv_conj append_take_drop_id)

lemma contains_iff: "contains tok s \<longleftrightarrow> (\<exists>a b. s = a @ tok @ b)"
proof (induction s)
  case Nil
  then show ?case by auto
next
  case (Cons c cs)
  show ?case
  proof
    assume "contains tok (c # cs)"
    then consider "startswith (c # cs) tok" | "contains tok cs" by auto
    then show "\<exists>a b. c # cs = a @ tok @ b"
    proof cases
      case 1
      then obtain r where "c # cs = tok @ r" by (auto simp: startswith_iff)
      then have "c # cs = [] @ tok @ r" by simp
      then show ?thesis by blast
    next
      case 2
      with Cons.IH obtain a b where "cs = a @ tok @ b" by blast
      then have "c # cs = (c # a) @ tok @ b" by simp
      then show ?thesis by blast
    qed
  next
    assume "\<exists>a b. c # cs = a @ tok @ b"
    then obtain a b where ab: "c # cs = a @ tok @ b" by blast
    show "contains tok (c # cs)"
    proof (cases a)
      case Nil
      with ab have "startswith (c # cs) tok" by (auto simp: startswith_iff)
      then show ?thesis by simp
    next
      case (Cons x a')
      with ab have "cs = a' @ tok @ b" by simp
      with Cons.IH have "contains tok cs" by blast
      then show ?thesis by simp
    qed
  qed
qed

lemma replace_keeps_prefix:
  "tok \<noteq> [] \<Longrightarrow> hd tok \<notin> set p \<Longrightarrow> replace_empty tok (p @ r) = p @ replace_empty tok r"
proof (induction p)
  case Nil
  then show ?case by simp
next
  case (Cons c p)
  from Cons.prems have "\<not> startswith (c # p @ r) tok"
    by (cases tok) (auto simp: startswith_def)
  with Cons show ?case by simp
qed

lemma strip_keeps_prefix:
  assumes "p \<noteq> []" and "\<forall>c\<in>set p. \<not> is_space c"
  shows "\<exists>r'. strip (p @ r) = p @ r'"
proof -
  from assms have 1: "dropWhile is_space (p @ r) = p @ r"
    by (cases p) auto
  from assms have 2: "dropWhile is_space (rev p) = rev p"
    by (cases "rev p") (auto simp: rev_is_Nil_conv dest: arg_cong [where f = set])
  have 3: "strip (p @ r) = rev (dropWhile is_space (rev r @ rev p))"
    unfolding strip_def 1 by simp
  show ?thesis
  proof (cases "\<forall>x\<in>set (rev r). is_space x")
    case True
    then have "strip (p @ r) = p @ []"
      unfolding 3 by (simp add: 2 dropWhile_append)
    then show ?thesis by blast
  next
    case False
    then have "strip (p @ r) = p @ rev (dropWhile is_space (rev r))"
      unfolding 3 by (auto simp: dropWhile_append)
    then show ?thesis by blast
  qed
qed

lemma lower_char_fixed:
  "is_space c \<or> c = CHR ''*'' \<or> c = CHR 0x60 \<Longrightarrow> lower_char c = c"
  by (auto simp: is_space_def lower_char_def Let_def)

lemma verb_letter_plain:
  "c \<in> set (concat sql_verbs) \<Longrightarrow> \<not> is_space c \<and> c \<noteq> CHR ''*'' \<and> c \<noteq> CHR 0x60"
  by (auto simp: sql_verbs_def is_space_def)

lemma verb_prefix_plain:
  assumes "v \<in> set sql_verbs" and "map lower_char p = v" and "c \<in> set p"
  shows "\<not> is_space c \<and> c \<noteq> CHR ''*'' \<and> c \<noteq> CHR 0x60"
proof (rule ccontr)
  assume "\<not> (\<not> is_space c \<and> c \<noteq> CHR ''*'' \<and> c \<noteq> CHR 0x60)"
  then have bad: "is_space c \<or> c = CHR ''*'' \<or> c = CHR 0x60" by blast
  then have "lower_char c = c" by (rule lower_char_fixed)
  moreover from assms(2,3) have "lower_char c \<in> set v" by auto
  ultimately have "c \<in> set (concat sql_verbs)" using assms(1) by auto
  from verb_letter_plain [OF this] bad show False by blast
qed

lemma starts_with_verb_restrip:
  assumes "starts_with_verb s"
  shows "starts_with_verb (restrip s)"
proof -
  from assms obtain v where v: "v \<in> set sql_verbs" and sw: "startswith (lower s) v"
    by (auto simp: starts_with_verb_def list_ex_iff)
  from sw obtain r0 where "map lower_char s = v @ r0"
    by (auto simp: startswith_iff lower_def)
  then obtain p r where s: "s = p @ r" and p: "map lower_char p = v"
    by (auto simp: map_eq_append_conv)
  from v p have ne: "p \<noteq> []" by (auto simp: sql_verbs_def)
  have plain: "\<forall>c\<in>set p. \<not> is_space c \<and> c \<noteq> CHR ''*'' \<and> c \<noteq> CHR 0x60"
    using verb_prefix_plain [OF v p] by blast
  then have nsp: "\<forall>c\<in>set p. \<not> is_space c" by blast
  from plain have h1: "hd ''*/'' \<notin> set p" and h2: "hd ''```'' \<notin> set p" by auto
  obtain r1 where 1: "strip (p @ r) = p @ r1" using strip_keeps_prefix [OF ne nsp] by blast
  have 2: "replace_empty ''*/'' (p @ r1) = p @ replace_empty ''*/'' r1"
    by (rule replace_keeps_prefix [OF _ h1]) simp
  have 3: "replace_empty ''```'' (p @ replace_empty ''*/'' r1)
      = p @ replace_empty ''```'' (replace_empty ''*/'' r1)"
    by (rule replace_keeps_prefix [OF _ h2]) simp
  obtain r4 where 4: "strip (p @ replace_empty ''```'' (replace_empty ''*/'' r1)) = p @ r4"
    using strip_keeps_prefix [OF ne nsp] by blast
  have "restrip s = p @ r4" unfolding restrip_def s 1 2 3 4 ..
  then have "startswith (lower (restrip s)) v"
    using p by (simp add: startswith_iff lower_def)
  with v show ?thesis by (auto simp: starts_with_verb_def list_ex_iff)
qed

lemma valid_sql_executable:
  "\<not> invalid_sql s \<Longrightarrow> s \<noteq> [] \<and> starts_with_verb (restrip s)"
  by (auto simp: invalid_sql_def starts_with_verb_restrip)

section \<open>Generation: validation and sanitization\<close>

lemma generate_sql_node_content:
  assumes "llm (generation_prompt st) (ext w) = (Inr content, s')"
  shows "generate_sql_node llm st w =
           (if invalid_sql (sanitize (strip content))
            then \<lparr>out_sql_query = Some [], out_data = Some ''Error: Invalid SQL generated.'',
                  out_answer = None, out_retries = Some (retries st)\<rparr>
            else \<lparr>out_sql_query = Some (sanitize (strip content)), out_data = None,
                  out_answer = None, out_retries = Some (retries st)\<rparr>,
            w\<lparr>ext := s', llm_prompts := llm_prompts w @ [generation_prompt st]\<rparr>)"
  using assms by (simp add: generate_sql_node_def llm_invoke_def Let_def)

text \<open>
  C6: when the model returns a text whose sanitized form \<open>s\<close> has exactly 9 characters
  and starts with \<open>SELECT\<close>, the generation node rejects it (empty \<open>sql_query\<close>, the
  invalid-SQL error in \<open>data\<close>); when \<open>s\<close> has 10 or more characters and its lower-cased
  form starts with one of the five verbs, the node accepts it and returns \<open>s\<close> as
  \<open>sql_query\<close>.
\<close>

theorem validation_boundary:
  assumes "llm (generation_prompt st) (ext w) = (Inr content, s')"
    and "s = sanitize (strip content)"
  shows "(length s = 9 \<and> startswith s ''SELECT'' \<longrightarrow>
            fst (generate_sql_node llm st w) =
              \<lparr>out_sql_query = Some [], out_data = Some ''Error: Invalid SQL generated.'',
               out_answer = None, out_retries = Some (retries st)\<rparr>)
       \<and> (10 \<le> length s \<and> (\<exists>v\<in>set sql_verbs. startswith (lower s) v) \<longrightarrow>
            fst (generate_sql_node llm st w) =
              \<lparr>out_sql_query = Some s, out_data = None,
               out_answer = None, out_retries = Some (retries st)\<rparr>)"
proof (intro conjI impI)
  assume "length s = 9 \<and> startswith s ''SELECT''"
  then have "invalid_sql s" by (simp add: invalid_sql_def)
  with assms show "fst (generate_sql_node llm st w) =
      \<lparr>out_sql_query = Some [], out_data = Some ''Error: Invalid SQL generated.'',
       out_answer = None, out_retries = Some (retries st)\<rparr>"
    by (simp add: generate_sql_node_content)
next
  assume a: "10 \<le> length s \<and> (\<exists>v\<in>set sql_verbs. startswith (lower s) v)"
  then have "s \<noteq> []" by auto
  with a have "\<not> invalid_sql s"
    by (auto simp: invalid_sql_def starts_with_verb_def list_ex_iff)
  with assms show "fst (generate_sql_node llm st w) =
      \<lparr>out_sql_query = Some s, out_data = None,
       out_answer = None, out_retries = Some (retries st)\<rparr>"
    by (simp add: generate_sql_node_content)
qed

theorem validation_boundary_witness:
  "length (sanitize (strip ''SELECT 1;'')) = 9
   \<and> startswith (sanitize (strip ''SELECT 1;'')) ''SELECT''
   \<and> fst (generate_sql_node (fixed_llm ''SELECT 1;'') (inputs ''q'' ''t'') (new_world ())) =
       \<lparr>out_sql_query = Some [], out_data = Some ''Error: Invalid SQL generated.'',
        out_answer = None, out_retries = Some 0\<rparr>
   \<and> 10 \<le> length (sanitize (strip ''select 1 ;''))
   \<and> list_ex (startswith (lower (sanitize (strip ''select 1 ;'')))) sql_verbs
   \<and> fst (generate_sql_node (fixed_llm ''select 1 ;'') (inputs ''q'' ''t'') (new_world ())) =
       \<lparr>out_sql_query = Some ''select 1 ;'', out_data = None,
        out_answer = None, out_retries = Some 0\<rparr>"
proof -
  have s1: "sanitize (strip ''SELECT 1;'') = ''SELECT 1;''" by code_simp
  have s2: "sanitize (strip ''select 1 ;'') = ''select 1 ;''" by code_simp
  have l2: "lower ''select 1 ;'' = ''select 1 ;''" by code_simp
  have c1: "fixed_llm ''SELECT 1;'' (generation_prompt (inputs ''q'' ''t'')) (ext (new_world ()))
      = (Inr ''SELECT 1;'', ())" by (simp add: fixed_llm_def)
  have c2: "fixed_llm ''select 1 ;'' (generation_prompt (inputs ''q'' ''t'')) (ext (new_world ()))
      = (Inr ''select 1 ;'', ())" by (simp add: fixed_llm_def)
  have v: "list_ex (startswith (lower ''select 1 ;'')) sql_verbs"
    unfolding l2 by (simp add: sql_verbs_def startswith_def)
  from validation_boundary [where llm = "fixed_llm ''SELECT 1;''" and st = "inputs ''q'' ''t''"
      and w = "new_world ()", OF c1 s1 [symmetric]]
  have r1: "fst (generate_sql_node (fixed_llm ''SELECT 1;'') (inputs ''q'' ''t'') (new_world ())) =
       \<lparr>out_sql_query = Some [], out_data = Some ''Error: Invalid SQL generated.'',
        out_answer = None, out_retries = Some 0\<rparr>"
    by (simp add: startswith_def inputs_def)
  from validation_boundary [where llm = "fixed_llm ''select 1 ;''" and st = "inputs ''q'' ''t''"
      and w = "new_world ()", OF c2 s2 [symmetric]] v
  have r2: "fst (generate_sql_node (fixed_llm ''select 1 ;'') (inputs ''q'' ''t'') (new_world ())) =
       \<lparr>out_sql_query = Some ''select 1 ;'', out_data = None,
        out_answer = None, out_retries = Some 0\<rparr>"
    by (simp add: list_ex_iff inputs_def)
  from r1 r2 v show ?thesis unfolding s1 s2 by (simp add: startswith_def)
qed

lemma sanitize_fenced: "sanitize (strip fenced_select_1) = ''SELECT 1;''"
  by code_simp

lemma sanitize_plain: "sanitize (strip ''SELECT 1;'') = ''SELECT 1;''"
  by code_simp

lemma invalid_select_1: "invalid_sql ''SELECT 1;''"
  by (simp add: invalid_sql_def)

lemma generate_sql_node_fixed:
  "generate_sql_node (fixed_llm t) st w =
           (if invalid_sql (sanitize (strip t))
            then \<lparr>out_sql_query = Some [], out_data = Some ''Error: Invalid SQL generated.'',
                  out_answer = None, out_retries = Some (retries st)\<rparr>
            else \<lparr>out_sql_query = Some (sanitize (strip t)), out_data = None,
                  out_answer = None, out_retries = Some (retries st)\<rparr>,
            w\<lparr>ext := ext w, llm_prompts := llm_prompts w @ [generation_prompt st]\<rparr>)"
  by (rule generate_sql_node_content) (simp add: fixed_llm_def)

text \<open>
  C5 as stated: the fenced text yields \<open>SELECT 1;\<close> as the stored \<open>sql_query\<close>. The
  sanitized text is \<open>SELECT 1;\<close>, 9 characters, which validation rejects: the
  generation node stores the empty string.
\<close>

theorem fenced_current_sql_counterexample:
  "out_sql_query (fst (generate_sql_node (fixed_llm fenced_select_1) (inputs ''q'' ''t'')
      (new_world ()))) = Some []
   \<and> out_sql_query (fst (generate_sql_node (fixed_llm fenced_select_1) (inputs ''q'' ''t'')
      (new_world ()))) \<noteq> Some ''SELECT 1;''"
  by (simp add: generate_sql_node_fixed sanitize_fenced invalid_select_1)

text \<open>
  C5, amended: sanitization turns the fenced text and the bare text into the same
  string, \<open>SELECT 1;\<close>, and the generation node stores the same \<open>sql_query\<close> for both;
  that stored value is the empty string, the 9-character text being below the minimum
  length.
\<close>

theorem sanitize_fenced_roundtrip:
  "sanitize (strip fenced_select_1) = ''SELECT 1;''
   \<and> sanitize (strip ''SELECT 1;'') = ''SELECT 1;''
   \<and> out_sql_query (fst (generate_sql_node (fixed_llm fenced_select_1) st w))
       = out_sql_query (fst (generate_sql_node (fixed_llm ''SELECT 1;'') st w))
   \<and> out_sql_query (fst (generate_sql_node (fixed_llm ''SELECT 1;'') st w)) = Some []"
  by (simp add: generate_sql_node_fixed sanitize_fenced sanitize_plain invalid_select_1)

section \<open>Runs of the graph\<close>

lemma merge_execute_data:
  "\<exists>d. data (merge_output st (fst (execute_sql_node db st w))) = Some d"
  using execute_sql_node_data [of db st w] by (auto simp: merge_output_def)

lemma merge_execute_retries:
  "retries (merge_output st (fst (execute_sql_node db st w))) = retries st"
  by (simp add: merge_output_retries execute_sql_node_retries)

lemma merge_generate_retries:
  "retries (merge_output st (fst (generate_sql_node llm st w))) = retries st"
  by (simp add: merge_output_retries generate_sql_node_retries)

lemma merge_synthesize_retries:
  "retries (merge_output st (fst (synthesize_answer_node llm st w))) = retries st"
  by (simp add: merge_output_retries synthesize_answer_node_retries)

lemma retries_seen_append:
  "retries_seen (xs @ ys) = retries_seen xs @ retries_seen ys"
  by (simp add: retries_seen_def List.map_filter_def)

lemma retries_seen_single:
  "out_retries u = Some r \<Longrightarrow> retries_seen [(n, u)] = [r]"
  by (simp add: retries_seen_def List.map_filter_def)

lemma retries_seen_Cons:
  "out_retries u = Some r \<Longrightarrow> retries_seen ((n, u) # evs) = r # retries_seen evs"
  by (simp add: retries_seen_def List.map_filter_def)

lemma sorted_constant: "set xs \<subseteq> {a} \<Longrightarrow> sorted (xs :: int list)"
  by (induction xs) auto

lemma stream_from_retries:
  "stream_from k llm db n st w evs = Inr (st', w', evs') \<Longrightarrow>
     retries st' = retries st
     \<and> (\<exists>new. evs' = evs @ new \<and> set (retries_seen new) \<subseteq> {retries st})"
proof (induction k arbitrary: n st w evs)
  case 0
  then show ?case by simp
next
  case (Suc k)
  show ?case
  proof (cases n)
    case generate_sql
    obtain u w1 where g: "generate_sql_node llm st w = (u, w1)"
      by (cases "generate_sql_node llm st w")
    have o: "out_retries u = Some (retries st)"
      using generate_sql_node_retries [of llm st w] g by simp
    have r: "retries (merge_output st u) = retries st"
      using merge_output_retries [OF o] .
    from Suc.prems generate_sql g
    have "stream_from k llm db execute_sql (merge_output st u) w1 (evs @ [(generate_sql, u)])
        = Inr (st', w', evs')"
      by simp
    from Suc.IH [OF this] r obtain new where
      "retries st' = retries st" and "evs' = evs @ ([(generate_sql, u)] @ new)"
      and "set (retries_seen new) \<subseteq> {retries st}" by auto
    moreover from this o have "set (retries_seen ([(generate_sql, u)] @ new)) \<subseteq> {retries st}"
      by (simp add: retries_seen_Cons)
    ultimately show ?thesis by blast
  next
    case execute_sql
    obtain u w1 where e: "execute_sql_node db st w = (u, w1)"
      by (cases "execute_sql_node db st w")
    have o: "out_retries u = Some (retries st)"
      using execute_sql_node_retries [of db st w] e by simp
    have r: "retries (merge_output st u) = retries st"
      using merge_output_retries [OF o] .
    from Suc.prems execute_sql e
    have "\<exists>n'. stream_from k llm db n' (merge_output st u) w1 (evs @ [(execute_sql, u)])
        = Inr (st', w', evs')"
      by (auto split: sum.splits prod.splits branch.splits)
    then obtain n' where "stream_from k llm db n' (merge_output st u) w1
        (evs @ [(execute_sql, u)]) = Inr (st', w', evs')" ..
    from Suc.IH [OF this] r obtain new where
      "retries st' = retries st" and "evs' = evs @ ([(execute_sql, u)] @ new)"
      and "set (retries_seen new) \<subseteq> {retries st}" by auto
    moreover from this o have "set (retries_seen ([(execute_sql, u)] @ new)) \<subseteq> {retries st}"
      by (simp add: retries_seen_Cons)
    ultimately show ?thesis by blast
  next
    case synthesize_answer
    obtain u w1 where s: "synthesize_answer_node llm st w = (u, w1)"
      by (cases "synthesize_answer_node llm st w")
    have o: "out_retries u = Some (retries st)"
      using synthesize_answer_node_retries [of llm st w] s by simp
    have r: "retries (merge_output st u) = retries st"
      using merge_output_retries [OF o] .
    from Suc.prems synthesize_answer s
    have "st' = merge_output st u" and "evs' = evs @ [(synthesize_answer, u)]"
      by (auto split: if_splits)
    moreover from o have "set (retries_seen [(synthesize_answer, u)]) \<subseteq> {retries st}"
      by (simp add: retries_seen_single)
    ultimately show ?thesis using r by blast
  qed
qed

lemma execute_sql_node_no_query:
  "sql_query st = [] \<Longrightarrow>
     execute_sql_node db st w =
       (\<lparr>out_sql_query = None, out_data = Some ''Error: No valid SQL to execute.'',
         out_answer = None, out_retries = Some (retries st)\<rparr>, w)"
  by (simp add: execute_sql_node_def)

lemma synthesize_answer_node_fixed:
  "synthesize_answer_node (fixed_llm t) st w =
     (\<lparr>out_sql_query = None, out_data = None, out_answer = Some (strip t),
       out_retries = Some (retries st)\<rparr>,
      w\<lparr>ext := ext w, llm_prompts := llm_prompts w @ [synthesis_prompt st]\<rparr>)"
  by (simp add: synthesize_answer_node_def llm_invoke_def fixed_llm_def)

lemma contains_error_marker: "contains ''Error:'' (''Error: '' @ e)"
  by (simp add: startswith_def)

lemma execute_sql_node_run:
  assumes "sql_query st \<noteq> []" and "starts_with_verb (restrip (sql_query st))"
    and "db (restrip (sql_query st)) (ext w) = (res, s')"
    and "d = (case res of Inl e \<Rightarrow> ''Error: '' @ e | Inr result \<Rightarrow> result)"
  shows "execute_sql_node db st w =
           (\<lparr>out_sql_query = None, out_data = Some d,
             out_answer = None, out_retries = Some (retries st)\<rparr>,
            w\<lparr>ext := s', db_queries := db_queries w @ [restrip (sql_query st)]\<rparr>)"
  using assms by (cases res) (simp_all add: execute_sql_node_def db_run_def)

lemma synthesis_prompt_answer: "synthesis_prompt (st\<lparr>answer := a\<rparr>) = synthesis_prompt st"
  by (simp add: synthesis_prompt_def)

lemma decision_retry:
  "retries st < 3 \<Longrightarrow> data st = Some d \<Longrightarrow> contains ''Error:'' d \<Longrightarrow>
     should_continue_or_retry st = Inr (retry, st\<lparr>retries := retries st + 1\<rparr>)"
  by (simp add: should_continue_or_retry_def)

lemma decision_synthesize:
  "data st = Some d \<Longrightarrow> \<not> contains ''Error:'' d \<Longrightarrow>
     should_continue_or_retry st = Inr (synthesize, st)"
  by (simp add: should_continue_or_retry_def)

lemma valid_cycle:
  assumes valid: "\<not> invalid_sql s" and s: "s = sanitize (strip t)"
    and db: "db (restrip s) (ext w) = (res, e')"
    and d: "d = (case res of Inl e \<Rightarrow> ''Error: '' @ e | Inr result \<Rightarrow> result)"
  shows "stream_from (Suc (Suc k)) (fixed_llm t) db generate_sql st w evs =
           stream_from k (fixed_llm t) db
             (case should_continue_or_retry (st\<lparr>sql_query := s, data := Some d\<rparr>) of
                Inr (retry, written) \<Rightarrow> generate_sql | _ \<Rightarrow> synthesize_answer)
             (st\<lparr>sql_query := s, data := Some d\<rparr>)
             (w\<lparr>ext := e', llm_prompts := llm_prompts w @ [generation_prompt st],
                db_queries := db_queries w @ [restrip s]\<rparr>)
             (evs @ [(generate_sql, \<lparr>out_sql_query = Some s, out_data = None,
                        out_answer = None, out_retries = Some (retries st)\<rparr>),
                     (execute_sql, \<lparr>out_sql_query = None, out_data = Some d,
                        out_answer = None, out_retries = Some (retries st)\<rparr>)])"
proof -
  let ?u1 = "\<lparr>out_sql_query = Some s, out_data = None,
               out_answer = None, out_retries = Some (retries st)\<rparr>"
  let ?w1 = "w\<lparr>llm_prompts := llm_prompts w @ [generation_prompt st]\<rparr>"
  let ?u2 = "\<lparr>out_sql_query = None, out_data = Some d,
               out_answer = None, out_retries = Some (retries st)\<rparr>"
  from valid_sql_executable [OF valid]
  have ne: "s \<noteq> []" and sv: "starts_with_verb (restrip s)" by simp_all
  have g: "generate_sql_node (fixed_llm t) st w = (?u1, ?w1)"
    using valid s by (simp add: generate_sql_node_fixed)
  have q: "sql_query (merge_output st ?u1) = s" by (simp add: merge_output_def)
  have 1: "sql_query (merge_output st ?u1) \<noteq> []" using ne q by simp
  have 2: "starts_with_verb (restrip (sql_query (merge_output st ?u1)))" using sv q by simp
  have 3: "db (restrip (sql_query (merge_output st ?u1))) (ext ?w1) = (res, e')"
    using db q by simp
  have e: "execute_sql_node db (merge_output st ?u1) ?w1 =
      (?u2, w\<lparr>ext := e', llm_prompts := llm_prompts w @ [generation_prompt st],
                     db_queries := db_queries w @ [restrip s]\<rparr>)"
    using execute_sql_node_run [where db = db and w = ?w1, OF 1 2 3 d]
    by (simp add: q merge_output_def)
  have m: "merge_output (merge_output st ?u1) ?u2 = st\<lparr>sql_query := s, data := Some d\<rparr>"
    by (simp add: merge_output_def)
  obtain b written where dec:
    "should_continue_or_retry (st\<lparr>sql_query := s, data := Some d\<rparr>) = Inr (b, written)"
    by (cases "should_continue_or_retry (st\<lparr>sql_query := s, data := Some d\<rparr>)")
       (auto simp: should_continue_or_retry_def split: if_splits)
  show ?thesis
    by (cases b) (simp_all add: g e m dec)
qed

lemma valid_cycle_retry:
  assumes valid: "\<not> invalid_sql s" and s: "s = sanitize (strip t)"
    and db: "db (restrip s) (ext w) = (res, e')"
    and d: "d = (case res of Inl e \<Rightarrow> ''Error: '' @ e | Inr result \<Rightarrow> result)"
    and c: "contains ''Error:'' d" and lt: "retries st < 3"
  shows "stream_from (Suc (Suc k)) (fixed_llm t) db generate_sql st w evs =
           stream_from k (fixed_llm t) db generate_sql
             (st\<lparr>sql_query := s, data := Some d\<rparr>)
             (w\<lparr>ext := e', llm_prompts := llm_prompts w @ [generation_prompt st],
                db_queries := db_queries w @ [restrip s]\<rparr>)
             (evs @ [(generate_sql, \<lparr>out_sql_query = Some s, out_data = None,
                        out_answer = None, out_retries = Some (retries st)\<rparr>),
                     (execute_sql, \<lparr>out_sql_query = None, out_data = Some d,
                        out_answer = None, out_retries = Some (retries st)\<rparr>)])"
proof -
  have "should_continue_or_retry (st\<lparr>sql_query := s, data := Some d\<rparr>)
      = Inr (retry, st\<lparr>sql_query := s, data := Some d, retries := retries st + 1\<rparr>)"
    using decision_retry [of "st\<lparr>sql_query := s, data := Some d\<rparr>" d] c lt by simp
  then show ?thesis
    unfolding valid_cycle [where db = db and w = w, OF valid s db d] by simp
qed

lemma valid_cycle_synthesize:
  assumes valid: "\<not> invalid_sql s" and s: "s = sanitize (strip t)"
    and db: "db (restrip s) (ext w) = (res, e')"
    and d: "d = (case res of Inl e \<Rightarrow> ''Error: '' @ e | Inr result \<Rightarrow> result)"
    and c: "\<not> contains ''Error:'' d"
  shows "stream_from (Suc (Suc (Suc (Suc k)))) (fixed_llm t) db generate_sql st w evs =
           Inr (st\<lparr>sql_query := s, data := Some d, answer := Some (strip t)\<rparr>,
                w\<lparr>ext := e',
                  llm_prompts := llm_prompts w @ [generation_prompt st,
                     synthesis_prompt (st\<lparr>sql_query := s, data := Some d\<rparr>)],
                  db_queries := db_queries w @ [restrip s]\<rparr>,
                evs @ [(generate_sql, \<lparr>out_sql_query = Some s, out_data = None,
                          out_answer = None, out_retries = Some (retries st)\<rparr>),
                       (execute_sql, \<lparr>out_sql_query = None, out_data = Some d,
                          out_answer = None, out_retries = Some (retries st)\<rparr>),
                       (synthesize_answer, \<lparr>out_sql_query = None, out_data = None,
                          out_answer = Some (strip t), out_retries = Some (retries st)\<rparr>)])"
proof -
  have "should_continue_or_retry (st\<lparr>sql_query := s, data := Some d\<rparr>)
      = Inr (synthesize, st\<lparr>sql_query := s, data := Some d\<rparr>)"
    using decision_synthesize [of "st\<lparr>sql_query := s, data := Some d\<rparr>" d] c by simp
  then show ?thesis
    unfolding valid_cycle [where db = db and w = w, OF valid s db d]
    by (simp add: synthesize_answer_node_fixed merge_output_def)
qed

lemma four_steps: "4 \<le> (limit::nat) \<Longrightarrow> \<exists>k. limit = Suc (Suc (Suc (Suc k)))"
  by (rule exI [of _ "limit - 4"]) simp

lemma first_try_run:
  assumes "\<not> invalid_sql (sanitize (strip t))" and "\<not> contains ''Error:'' r" and "4 \<le> limit"
  shows "\<exists>st' w' evs. stream limit (fixed_llm t) (fixed_db r) q sch w = Inr (st', w', evs)
           \<and> nodes_run evs = [generate_sql, execute_sql, synthesize_answer]"
proof -
  from four_steps [OF assms(3)] obtain k where k: "limit = Suc (Suc (Suc (Suc k)))" ..
  have db: "fixed_db r (restrip (sanitize (strip t))) (ext w) = (Inr r, ext w)"
    by (simp add: fixed_db_def)
  have d: "r = (case Inr r of Inl e \<Rightarrow> ''Error: '' @ e | Inr result \<Rightarrow> result)" by simp
  note run = valid_cycle_synthesize [where db = "fixed_db r" and w = w and res = "Inr r"
      and d = r and st = "inputs q sch" and evs = "[]" and k = k, OF assms(1) refl db d assms(2)]
  show ?thesis
    unfolding stream_def k run by (simp add: nodes_run_def)
qed

section \<open>The retries counter over a run\<close>

text \<open>
  C1: a run of the graph from the chat page's initial state that reaches the end leaves
  \<open>retries\<close> at most 3, and no event of the run carries a larger value (the counter of
  the graph state in fact stays at 0, the router's write not being part of it); what
  the decision writes is at most 3 when it was given at most 3; and the decision, taken
  on a state whose \<open>retries\<close> is 3 or more, returns the synthesis branch and leaves the
  state as it is, whatever \<open>data\<close> holds.
\<close>

theorem retry_budget_bound:
  "(stream limit llm db q sch w = Inr (st', w', evs) \<longrightarrow>
      retries st' = 0 \<and> retries st' \<le> 3 \<and> (\<forall>r\<in>set (retries_seen evs). r \<le> 3))
   \<and> (should_continue_or_retry st = Inr (b, st2) \<and> retries st \<le> 3 \<longrightarrow> retries st2 \<le> 3)
   \<and> (3 \<le> retries st \<longrightarrow> should_continue_or_retry st = Inr (synthesize, st))"
proof (intro conjI impI)
  assume run: "stream limit llm db q sch w = Inr (st', w', evs)"
  then have run': "stream_from limit llm db generate_sql (inputs q sch) w [] = Inr (st', w', evs)"
    by (simp add: stream_def)
  from stream_from_retries [OF run'] obtain new where
    r: "retries st' = retries (inputs q sch)" and "evs = [] @ new"
    and "set (retries_seen new) \<subseteq> {retries (inputs q sch)}" by blast
  then have seen: "set (retries_seen evs) \<subseteq> {0}" by (simp add: inputs_def)
  from r show "retries st' = 0" by (simp add: inputs_def)
  then show "retries st' \<le> 3" by simp
  from seen show "\<forall>r\<in>set (retries_seen evs). r \<le> 3" by auto
next
  assume "should_continue_or_retry st = Inr (b, st2) \<and> retries st \<le> 3"
  then show "retries st2 \<le> 3"
    by (auto simp: should_continue_or_retry_def split: if_splits option.splits)
next
  assume "3 \<le> retries st"
  then show "should_continue_or_retry st = Inr (synthesize, st)"
    by (simp add: should_continue_or_retry_def)
qed

theorem retry_budget_bound_witness:
  "(\<exists>st' w' evs.
      stream 10 (fixed_llm ''SELECT * FROM crops;'') (fixed_db ''[(Bihar, 2010, 500)]'')
        ''Rice in Bihar in 2010?'' ''t'' (new_world ()) = Inr (st', w', evs)
      \<and> retries st' = 0 \<and> retries st' \<le> 3 \<and> list_all (\<lambda>r. r \<le> 3) (retries_seen evs))
   \<and> should_continue_or_retry ((inputs ''q'' ''t'')\<lparr>data := Some ''Error: x'', retries := 2\<rparr>)
       = Inr (retry, (inputs ''q'' ''t'')\<lparr>data := Some ''Error: x'', retries := 3\<rparr>)
   \<and> retries ((inputs ''q'' ''t'')\<lparr>data := Some ''Error: x'', retries := 2\<rparr>) \<le> 3
   \<and> retries ((inputs ''q'' ''t'')\<lparr>data := Some ''Error: x'', retries := 3\<rparr>) \<le> 3
   \<and> 3 \<le> retries ((inputs ''q'' ''t'')\<lparr>data := Some ''Error: x'', retries := 3\<rparr>)
   \<and> should_continue_or_retry ((inputs ''q'' ''t'')\<lparr>data := Some ''Error: x'', retries := 3\<rparr>)
       = Inr (synthesize, (inputs ''q'' ''t'')\<lparr>data := Some ''Error: x'', retries := 3\<rparr>)"
proof -
  let ?llm = "fixed_llm ''SELECT * FROM crops;'' :: unit collaborator"
  let ?db = "fixed_db ''[(Bihar, 2010, 500)]'' :: unit collaborator"
  let ?a = "(inputs ''q'' ''t'')\<lparr>data := Some ''Error: x'', retries := 2\<rparr>"
  let ?b = "(inputs ''q'' ''t'')\<lparr>data := Some ''Error: x'', retries := 3\<rparr>"
  have v: "\<not> invalid_sql (sanitize (strip ''SELECT * FROM crops;''))" by code_simp
  have c: "\<not> contains ''Error:'' ''[(Bihar, 2010, 500)]''" by code_simp
  from first_try_run [OF v c, of 10 "''Rice in Bihar in 2010?''" "''t''" "new_world ()"]
  obtain st' w' evs where
    run: "stream 10 ?llm ?db ''Rice in Bihar in 2010?'' ''t'' (new_world ()) = Inr (st', w', evs)"
    by auto
  have d: "should_continue_or_retry ?a = Inr (retry, ?b)"
    by (simp add: should_continue_or_retry_def inputs_def startswith_def)
  note t1 = retry_budget_bound [where limit = 10 and llm = ?llm and db = ?db
      and q = "''Rice in Bihar in 2010?''" and sch = "''t''" and w = "new_world ()"
      and st' = st' and w' = w' and evs = evs and st = ?a and b = retry and ?st2.0 = ?b]
  note t2 = retry_budget_bound [where limit = 10 and llm = ?llm and db = ?db
      and q = "''Rice in Bihar in 2010?''" and sch = "''t''" and w = "new_world ()"
      and st' = st' and w' = w' and evs = evs and st = ?b and b = retry and ?st2.0 = ?b]
  from t1 run have 1: "retries st' = 0 \<and> retries st' \<le> 3
      \<and> list_all (\<lambda>r. r \<le> 3) (retries_seen evs)"
    by (simp add: list_all_iff)
  have le: "retries ?a \<le> 3" by (simp add: inputs_def)
  from t1 d le have 2: "retries ?b \<le> 3" by blast
  have ge: "3 \<le> retries ?b" by (simp add: inputs_def)
  from t2 ge have 3: "should_continue_or_retry ?b = Inr (synthesize, ?b)" by blast
  from run 1 d le 2 ge 3 show ?thesis by blast
qed

text \<open>
  C9: the generation, execution and synthesis nodes each return, on every path, a
  \<open>retries\<close> value equal to that of the state they were given; the retry decision
  leaves \<open>retries\<close> as it is on the synthesis branch and writes it raised by exactly 1
  on the retry branch; and over a run, from any node and any state, the final \<open>retries\<close>
  is not below the initial one (it is equal to it) and the values carried by the events
  never decrease.
\<close>

theorem retries_frame:
  "out_retries (fst (generate_sql_node llm st w)) = Some (retries st)
   \<and> out_retries (fst (execute_sql_node db st w)) = Some (retries st)
   \<and> out_retries (fst (synthesize_answer_node llm st w)) = Some (retries st)
   \<and> (should_continue_or_retry st = Inr (b, st2) \<longrightarrow>
        retries st2 = (if b = retry then retries st + 1 else retries st))
   \<and> (stream_from k llm db n st w [] = Inr (st', w', evs) \<longrightarrow>
        retries st' = retries st \<and> retries st \<le> retries st' \<and> sorted (retries_seen evs))"
proof (intro conjI impI)
  assume "should_continue_or_retry st = Inr (b, st2)"
  from decision_cases [OF this]
  show "retries st2 = (if b = retry then retries st + 1 else retries st)" by auto
next
  assume run: "stream_from k llm db n st w [] = Inr (st', w', evs)"
  from stream_from_retries [OF run] obtain new where
    r: "retries st' = retries st" and "evs = [] @ new"
    and "set (retries_seen new) \<subseteq> {retries st}" by blast
  then have "set (retries_seen evs) \<subseteq> {retries st}" by simp
  then show "sorted (retries_seen evs)" by (rule sorted_constant)
  from r show "retries st' = retries st" .
  from r show "retries st \<le> retries st'" by simp
qed (rule generate_sql_node_retries execute_sql_node_retries synthesize_answer_node_retries)+

theorem retries_frame_witness:
  "should_continue_or_retry ((inputs ''q'' ''t'')\<lparr>data := Some ''Error: x''\<rparr>)
     = Inr (retry, (inputs ''q'' ''t'')\<lparr>data := Some ''Error: x'', retries := 1\<rparr>)
   \<and> retries ((inputs ''q'' ''t'')\<lparr>data := Some ''Error: x'', retries := 1\<rparr>)
       = retries ((inputs ''q'' ''t'')\<lparr>data := Some ''Error: x''\<rparr>) + 1
   \<and> (\<exists>st' w' evs.
         stream_from 10 (fixed_llm ''SELECT * FROM crops;'') (fixed_db ''[(Bihar, 2010, 500)]'')
           generate_sql (inputs ''q'' ''t'') (new_world ()) [] = Inr (st', w', evs)
         \<and> retries st' = retries (inputs ''q'' ''t'') \<and> sorted (retries_seen evs))"
proof -
  let ?llm = "fixed_llm ''SELECT * FROM crops;'' :: unit collaborator"
  let ?db = "fixed_db ''[(Bihar, 2010, 500)]'' :: unit collaborator"
  let ?st = "(inputs ''q'' ''t'')\<lparr>data := Some ''Error: x''\<rparr>"
  let ?st2 = "(inputs ''q'' ''t'')\<lparr>data := Some ''Error: x'', retries := 1\<rparr>"
  have d: "should_continue_or_retry ?st = Inr (retry, ?st2)"
    by (simp add: should_continue_or_retry_def inputs_def startswith_def)
  have v: "\<not> invalid_sql (sanitize (strip ''SELECT * FROM crops;''))" by code_simp
  have c: "\<not> contains ''Error:'' ''[(Bihar, 2010, 500)]''" by code_simp
  from first_try_run [OF v c, of 10 "''q''" "''t''" "new_world ()"]
  obtain st' w' evs where
    run: "stream_from 10 ?llm ?db generate_sql (inputs ''q'' ''t'') (new_world ()) []
      = Inr (st', w', evs)"
    by (auto simp: stream_def)
  note t1 = retries_frame [where k = 10 and llm = ?llm and db = ?db and n = generate_sql
      and st = "inputs ''q'' ''t''" and w = "new_world ()"
      and st' = st' and w' = w' and evs = evs and b = retry and ?st2.0 = ?st2]
  note t2 = retries_frame [where k = 10 and llm = ?llm and db = ?db and n = generate_sql
      and st = ?st and w = "new_world ()"
      and st' = st' and w' = w' and evs = evs and b = retry and ?st2.0 = ?st2]
  from t1 run have 1: "retries st' = retries (inputs ''q'' ''t'') \<and> sorted (retries_seen evs)"
    by blast
  from t2 d have 2: "retries ?st2 = retries ?st + 1" by simp
  from d 1 2 run show ?thesis by blast
qed

section \<open>Runs with a model that never produces valid SQL\<close>

lemma generate_invalid_fixed:
  "invalid_sql (sanitize (strip t)) \<Longrightarrow>
     generate_sql_node (fixed_llm t) st w =
       (\<lparr>out_sql_query = Some [], out_data = Some ''Error: Invalid SQL generated.'',
         out_answer = None, out_retries = Some (retries st)\<rparr>,
        w\<lparr>llm_prompts := llm_prompts w @ [generation_prompt st]\<rparr>)"
  by (simp add: generate_sql_node_fixed)

lemma no_query_marker: "contains ''Error:'' ''Error: No valid SQL to execute.''"
  using contains_error_marker [of "''No valid SQL to execute.''"] by simp

lemma invalid_run_from:
  assumes inv: "invalid_sql (sanitize (strip t))"
  shows "retries st < 3 \<Longrightarrow>
     (\<exists>new. stream_from k (fixed_llm t) db generate_sql st w evs
               = Inl (GraphRecursionError, evs @ new)
        \<and> length new = k \<and> synthesize_answer \<notin> set (nodes_run new)
        \<and> count_list (nodes_run new) generate_sql = (k + 1) div 2)
     \<and> (sql_query st = [] \<longrightarrow>
         (\<exists>new. stream_from k (fixed_llm t) db execute_sql st w evs
               = Inl (GraphRecursionError, evs @ new)
          \<and> length new = k \<and> synthesize_answer \<notin> set (nodes_run new)
          \<and> count_list (nodes_run new) generate_sql = k div 2))"
proof (induction k arbitrary: st w evs)
  case 0
  then show ?case by (simp add: nodes_run_def)
next
  case (Suc k)
  show ?case
  proof (intro conjI impI)
    let ?u = "\<lparr>out_sql_query = Some [], out_data = Some ''Error: Invalid SQL generated.'',
                out_answer = None, out_retries = Some (retries st)\<rparr>"
    let ?w1 = "w\<lparr>llm_prompts := llm_prompts w @ [generation_prompt st]\<rparr>"
    have g: "generate_sql_node (fixed_llm t) st w = (?u, ?w1)"
      using inv by (rule generate_invalid_fixed)
    have r: "retries (merge_output st ?u) < 3" and q: "sql_query (merge_output st ?u) = []"
      using Suc.prems by (simp_all add: merge_output_def)
    from Suc.IH [OF r, of ?w1 "evs @ [(generate_sql, ?u)]"] q
    obtain new where
      run: "stream_from k (fixed_llm t) db execute_sql (merge_output st ?u) ?w1
              (evs @ [(generate_sql, ?u)])
            = Inl (GraphRecursionError, (evs @ [(generate_sql, ?u)]) @ new)"
      and len: "length new = k" and ns: "synthesize_answer \<notin> set (nodes_run new)"
      and cnt: "count_list (nodes_run new) generate_sql = k div 2"
      by blast
    have "stream_from (Suc k) (fixed_llm t) db generate_sql st w evs
        = Inl (GraphRecursionError, evs @ ((generate_sql, ?u) # new))"
      using run by (simp add: g)
    moreover have "length ((generate_sql, ?u) # new) = Suc k" using len by simp
    moreover have "synthesize_answer \<notin> set (nodes_run ((generate_sql, ?u) # new))"
      using ns by (simp add: nodes_run_def)
    moreover have "count_list (nodes_run ((generate_sql, ?u) # new)) generate_sql
        = (Suc k + 1) div 2"
      using cnt by (simp add: nodes_run_def)
    ultimately show "\<exists>new. stream_from (Suc k) (fixed_llm t) db generate_sql st w evs
               = Inl (GraphRecursionError, evs @ new)
        \<and> length new = Suc k \<and> synthesize_answer \<notin> set (nodes_run new)
        \<and> count_list (nodes_run new) generate_sql = (Suc k + 1) div 2"
      by blast
  next
    assume empty: "sql_query st = []"
    let ?u = "\<lparr>out_sql_query = None, out_data = Some ''Error: No valid SQL to execute.'',
                out_answer = None, out_retries = Some (retries st)\<rparr>"
    have e: "execute_sql_node db st w = (?u, w)"
      using empty by (rule execute_sql_node_no_query)
    have r: "retries (merge_output st ?u) < 3"
      using Suc.prems by (simp add: merge_output_def)
    have d: "should_continue_or_retry (merge_output st ?u)
        = Inr (retry, (merge_output st ?u)\<lparr>retries := retries (merge_output st ?u) + 1\<rparr>)"
      by (rule decision_retry [OF r _ no_query_marker]) (simp add: merge_output_def)
    from Suc.IH [OF r, of w "evs @ [(execute_sql, ?u)]"]
    obtain new where
      run: "stream_from k (fixed_llm t) db generate_sql (merge_output st ?u) w
              (evs @ [(execute_sql, ?u)])
            = Inl (GraphRecursionError, (evs @ [(execute_sql, ?u)]) @ new)"
      and len: "length new = k" and ns: "synthesize_answer \<notin> set (nodes_run new)"
      and cnt: "count_list (nodes_run new) generate_sql = (k + 1) div 2"
      by blast
    have "stream_from (Suc k) (fixed_llm t) db execute_sql st w evs
        = Inl (GraphRecursionError, evs @ ((execute_sql, ?u) # new))"
      using run by (simp add: e d)
    moreover have "length ((execute_sql, ?u) # new) = Suc k" using len by simp
    moreover have "synthesize_answer \<notin> set (nodes_run ((execute_sql, ?u) # new))"
      using ns by (simp add: nodes_run_def)
    moreover have "count_list (nodes_run ((execute_sql, ?u) # new)) generate_sql
        = Suc k div 2"
      using cnt by (simp add: nodes_run_def)
    ultimately show "\<exists>new. stream_from (Suc k) (fixed_llm t) db execute_sql st w evs
               = Inl (GraphRecursionError, evs @ new)
        \<and> length new = Suc k \<and> synthesize_answer \<notin> set (nodes_run new)
        \<and> count_list (nodes_run new) generate_sql = Suc k div 2"
      by blast
  qed
qed

text \<open>
  C3 says that, with a model that never produces valid SQL, the loop ends with a
  non-empty answer after exactly 3 generation attempts. The code does not: every node
  returns \<open>retries\<close> as it read it and the router's \<open>retries + 1\<close> does not reach the graph
  state, so the budget test never fires. With a model whose constant answer fails
  validation, any question, any database and any limit, the stream raises
  \<open>GraphRecursionError\<close> after as many node runs as the limit allows, generation and
  execution alternating (5 generation attempts under the chat page's limit of 10), and
  synthesis never runs.
\<close>

theorem invalid_generation_never_ends:
  assumes "invalid_sql (sanitize (strip t))"
  shows "\<exists>evs. stream limit (fixed_llm t) db q sch w = Inl (GraphRecursionError, evs)
           \<and> length evs = limit \<and> synthesize_answer \<notin> set (nodes_run evs)
           \<and> count_list (nodes_run evs) generate_sql = (limit + 1) div 2"
proof -
  have "retries (inputs q sch) < 3" by (simp add: inputs_def)
  from invalid_run_from [OF assms this, of limit db w "[]"]
  show ?thesis by (auto simp: stream_def)
qed

theorem invalid_generation_never_ends_witness:
  "invalid_sql (sanitize (strip ''not sql''))
   \<and> (\<exists>evs. stream 10 (fixed_llm ''not sql'') (fixed_db ''[]'') ''asdf;;;'' ''t'' (new_world ())
               = Inl (GraphRecursionError, evs)
         \<and> length evs = 10 \<and> synthesize_answer \<notin> set (nodes_run evs)
         \<and> count_list (nodes_run evs) generate_sql = 5)"
proof -
  have h: "invalid_sql (sanitize (strip ''not sql''))" by code_simp
  from invalid_generation_never_ends [OF h, of 10 "fixed_db ''[]''" "''asdf;;;''" "''t''"
      "new_world ()"] h
  show ?thesis by simp
qed

section \<open>Runs with a database that fails twice\<close>

lemma eight_steps:
  "8 \<le> (limit::nat) \<Longrightarrow> \<exists>m. limit = Suc (Suc (Suc (Suc (Suc (Suc (Suc (Suc m)))))))"
  by (rule exI [of _ "limit - 8"]) simp

text \<open>
  C7 says that, with valid SQL from the model and a database that raises twice and then
  succeeds, generation and execution each run 3 times, synthesis runs once on the
  successful result and \<open>retries\<close> ends at 2. The code does the first three (under a
  limit of 8 or more, the run of 7 nodes needing one step more to reach the end, and
  with a result that does not hold the error marker), but \<open>retries\<close> ends at 0: the two
  increments the router wrote never reached the graph state.
\<close>

theorem flaky_store_run:
  assumes "\<not> invalid_sql (sanitize (strip t))" and "\<not> contains ''Error:'' r" and "8 \<le> limit"
  shows "\<exists>st' w' evs.
           stream limit (fixed_llm t) (flaky_db e1 e2 r) q sch (new_world 0) = Inr (st', w', evs)
           \<and> nodes_run evs = [generate_sql, execute_sql, generate_sql, execute_sql,
                generate_sql, execute_sql, synthesize_answer]
           \<and> retries st' = 0 \<and> data st' = Some r
           \<and> db_queries w' = replicate 3 (restrip (sanitize (strip t)))
           \<and> last (llm_prompts w') = synthesis_prompt st'"
proof -
  let ?s = "sanitize (strip t)"
  let ?db = "flaky_db e1 e2 r"
  let ?u1 = "\<lambda>n::int. \<lparr>out_sql_query = Some ?s, out_data = None,
                        out_answer = None, out_retries = Some n\<rparr>"
  let ?u2 = "\<lambda>d (n::int). \<lparr>out_sql_query = None, out_data = Some d,
                        out_answer = None, out_retries = Some n\<rparr>"
  define d1 where "d1 = ''Error: '' @ e1"
  define d2 where "d2 = ''Error: '' @ e2"
  have c1: "contains ''Error:'' d1" and c2: "contains ''Error:'' d2"
    unfolding d1_def d2_def by (rule contains_error_marker)+
  from eight_steps [OF assms(3)] obtain m where
    k: "limit = Suc (Suc (Suc (Suc (Suc (Suc (Suc (Suc m)))))))" ..
  let ?st0 = "inputs q sch"
  let ?w0 = "new_world (0::nat)"
  let ?st1 = "?st0\<lparr>sql_query := ?s, data := Some d1\<rparr>"
  let ?w1 = "?w0\<lparr>ext := Suc 0, llm_prompts := llm_prompts ?w0 @ [generation_prompt ?st0],
                db_queries := db_queries ?w0 @ [restrip ?s]\<rparr>"
  let ?ev1 = "[] @ [(generate_sql, ?u1 (retries ?st0)), (execute_sql, ?u2 d1 (retries ?st0))]"
  let ?st2 = "?st1\<lparr>sql_query := ?s, data := Some d2\<rparr>"
  let ?w2 = "?w1\<lparr>ext := Suc (Suc 0), llm_prompts := llm_prompts ?w1 @ [generation_prompt ?st1],
                db_queries := db_queries ?w1 @ [restrip ?s]\<rparr>"
  let ?ev2 = "?ev1 @ [(generate_sql, ?u1 (retries ?st1)), (execute_sql, ?u2 d2 (retries ?st1))]"
  let ?st3 = "?st2\<lparr>sql_query := ?s, data := Some r, answer := Some (strip t)\<rparr>"
  let ?w3 = "?w2\<lparr>ext := Suc (Suc (Suc 0)),
                llm_prompts := llm_prompts ?w2 @ [generation_prompt ?st2,
                  synthesis_prompt (?st2\<lparr>sql_query := ?s, data := Some r\<rparr>)],
                db_queries := db_queries ?w2 @ [restrip ?s]\<rparr>"
  let ?ev3 = "?ev2 @ [(generate_sql, ?u1 (retries ?st2)), (execute_sql, ?u2 r (retries ?st2)),
                (synthesize_answer, \<lparr>out_sql_query = None, out_data = None,
                   out_answer = Some (strip t), out_retries = Some (retries ?st2)\<rparr>)]"
  have a: "stream_from (Suc (Suc (Suc (Suc (Suc (Suc (Suc (Suc m)))))))) (fixed_llm t) ?db
             generate_sql ?st0 ?w0 []
         = stream_from (Suc (Suc (Suc (Suc (Suc (Suc m)))))) (fixed_llm t) ?db generate_sql
             ?st1 ?w1 ?ev1"
    by (rule valid_cycle_retry [where res = "Inl e1", OF assms(1) refl _ _ c1])
       (simp_all add: flaky_db_def new_world_def d1_def inputs_def)
  have b: "stream_from (Suc (Suc (Suc (Suc (Suc (Suc m)))))) (fixed_llm t) ?db generate_sql
             ?st1 ?w1 ?ev1
         = stream_from (Suc (Suc (Suc (Suc m)))) (fixed_llm t) ?db generate_sql ?st2 ?w2 ?ev2"
    by (rule valid_cycle_retry [where res = "Inl e2", OF assms(1) refl _ _ c2])
       (simp_all add: flaky_db_def new_world_def d2_def inputs_def)
  have c: "stream_from (Suc (Suc (Suc (Suc m)))) (fixed_llm t) ?db generate_sql ?st2 ?w2 ?ev2
         = Inr (?st3, ?w3, ?ev3)"
    by (rule valid_cycle_synthesize [where res = "Inr r", OF assms(1) refl _ _])
       (simp_all add: flaky_db_def new_world_def assms(2))
  have run: "stream limit (fixed_llm t) ?db q sch ?w0 = Inr (?st3, ?w3, ?ev3)"
    unfolding stream_def k a b c ..
  have "nodes_run ?ev3 = [generate_sql, execute_sql, generate_sql, execute_sql,
                generate_sql, execute_sql, synthesize_answer]"
    by (simp add: nodes_run_def)
  moreover have "retries ?st3 = 0" by (simp add: inputs_def)
  moreover have "data ?st3 = Some r" by simp
  moreover have "db_queries ?w3 = replicate 3 (restrip ?s)"
    by (simp add: new_world_def numeral_3_eq_3)
  moreover have "last (llm_prompts ?w3) = synthesis_prompt ?st3"
    by (simp add: synthesis_prompt_answer)
  ultimately show ?thesis using run by blast
qed

theorem flaky_store_run_witness:
  "\<not> invalid_sql (sanitize (strip ''SELECT * FROM crops;''))
   \<and> \<not> contains ''Error:'' ''[(Bihar, 2010, 500)]'' \<and> (8::nat) \<le> 10
   \<and> (\<exists>st' w' evs.
         stream 10 (fixed_llm ''SELECT * FROM crops;'')
           (flaky_db ''no such table: crop'' ''database is locked'' ''[(Bihar, 2010, 500)]'')
           ''Rice in Bihar in 2010?'' ''t'' (new_world 0) = Inr (st', w', evs)
         \<and> nodes_run evs = [generate_sql, execute_sql, generate_sql, execute_sql,
              generate_sql, execute_sql, synthesize_answer]
         \<and> retries st' = 0 \<and> retries st' \<noteq> 2 \<and> data st' = Some ''[(Bihar, 2010, 500)]'')"
proof -
  have h1: "\<not> invalid_sql (sanitize (strip ''SELECT * FROM crops;''))" by code_simp
  have h2: "\<not> contains ''Error:'' ''[(Bihar, 2010, 500)]''" by code_simp
  have h3: "(8::nat) \<le> 10" by simp
  from flaky_store_run [OF h1 h2 h3, of "''no such table: crop''" "''database is locked''"
      "''Rice in Bihar in 2010?''" "''t''"]
  obtain st' w' evs where
    "stream 10 (fixed_llm ''SELECT * FROM crops;'')
       (flaky_db ''no such table: crop'' ''database is locked'' ''[(Bihar, 2010, 500)]'')
       ''Rice in Bihar in 2010?'' ''t'' (new_world 0) = Inr (st', w', evs)"
    and "nodes_run evs = [generate_sql, execute_sql, generate_sql, execute_sql,
              generate_sql, execute_sql, synthesize_answer]"
    and "retries st' = 0" and "data st' = Some ''[(Bihar, 2010, 500)]''"
    by auto
  moreover from this have "retries st' \<noteq> 2" by simp
  ultimately show ?thesis using h1 h2 h3 by (intro conjI exI)
qed

section \<open>Sanitization deletes the tokens wherever they stand\<close>

lemma non_space_append: "non_space (a @ b) = non_space a @ non_space b"
  by (simp add: non_space_def)

lemma non_space_dropWhile: "non_space (dropWhile is_space s) = non_space s"
  by (induction s) (auto simp: non_space_def)

lemma non_space_rev: "non_space (rev s) = rev (non_space s)"
  by (simp add: non_space_def rev_filter)

lemma non_space_strip: "non_space (strip s) = non_space s"
  by (simp add: strip_def non_space_rev non_space_dropWhile)

lemma non_space_plain: "\<forall>c\<in>set tok. \<not> is_space c \<Longrightarrow> non_space tok = tok"
  by (simp add: non_space_def)

lemma replace_empty_le:
  "length (non_space (replace_empty tok s)) \<le> length (non_space s)"
proof (induction tok s rule: replace_empty.induct)
  case (1 old)
  then show ?case by simp
next
  case (2 old c cs)
  show ?case
  proof (cases "old \<noteq> [] \<and> startswith (c # cs) old")
    case True
    then obtain r where r: "c # cs = old @ r" by (auto simp: startswith_iff)
    then have dr: "drop (length old) (c # cs) = r" by (metis append_eq_conv_conj)
    from 2(1) True have "length (non_space (replace_empty old (drop (length old) (c # cs))))
        \<le> length (non_space (drop (length old) (c # cs)))" by simp
    also have "\<dots> \<le> length (non_space (c # cs))"
      unfolding dr by (subst r) (simp add: non_space_append)
    finally show ?thesis using True by simp
  next
    case False
    with 2(2) have "length (non_space (replace_empty old cs)) \<le> length (non_space cs)" by simp
    with False show ?thesis by (auto simp: non_space_def)
  qed
qed

lemma replace_empty_less:
  "tok \<noteq> [] \<Longrightarrow> \<forall>c\<in>set tok. \<not> is_space c \<Longrightarrow> contains tok s \<Longrightarrow>
     length (non_space (replace_empty tok s)) < length (non_space s)"
proof (induction tok s rule: replace_empty.induct)
  case (1 old)
  then show ?case by simp
next
  case (2 old c cs)
  show ?case
  proof (cases "startswith (c # cs) old")
    case True
    then obtain r where r: "c # cs = old @ r" by (auto simp: startswith_iff)
    then have dr: "drop (length old) (c # cs) = r" by (metis append_eq_conv_conj)
    have "length (non_space (replace_empty old r)) \<le> length (non_space r)"
      by (rule replace_empty_le)
    also have "\<dots> < length (non_space (c # cs))"
      using 2(3,4) by (subst r) (simp add: non_space_append non_space_plain)
    finally show ?thesis using True 2(3) by (simp add: dr)
  next
    case False
    with 2(5) have "contains old cs" by simp
    with 2(2) False 2(3,4) have "length (non_space (replace_empty old cs)) < length (non_space cs)"
      by simp
    with False show ?thesis by (simp add: non_space_def)
  qed
qed

lemma replace_empty_absent: "\<not> contains tok s \<Longrightarrow> replace_empty tok s = s"
  by (induction tok s rule: replace_empty.induct) auto

lemma contains_dropWhile:
  assumes "tok \<noteq> []" and "\<not> is_space (hd tok)" and "contains tok s"
  shows "contains tok (dropWhile is_space s)"
  using assms(3)
proof (induction s)
  case Nil
  then show ?case by simp
next
  case (Cons c cs)
  show ?case
  proof (cases "is_space c")
    case True
    with assms(1,2) have "\<not> startswith (c # cs) tok"
      by (cases tok) (auto simp: startswith_def)
    with Cons True show ?thesis by simp
  next
    case False
    with Cons.prems show ?thesis by simp
  qed
qed

lemma contains_rev: "contains (rev tok) (rev s) \<longleftrightarrow> contains tok s"
proof -
  have "(\<exists>a b. rev s = a @ rev tok @ b) \<longleftrightarrow> (\<exists>a b. s = a @ tok @ b)"
  proof
    assume "\<exists>a b. rev s = a @ rev tok @ b"
    then obtain a b where "rev s = a @ rev tok @ b" by blast
    then have "rev (rev s) = rev (a @ rev tok @ b)" by simp
    then have "s = rev b @ tok @ rev a" by simp
    then show "\<exists>a b. s = a @ tok @ b" by blast
  next
    assume "\<exists>a b. s = a @ tok @ b"
    then obtain a b where "s = a @ tok @ b" by blast
    then have "rev s = rev b @ rev tok @ rev a" by simp
    then show "\<exists>a b. rev s = a @ rev tok @ b" by blast
  qed
  then show ?thesis by (simp add: contains_iff)
qed

lemma contains_strip:
  assumes "tok \<noteq> []" and "\<forall>c\<in>set tok. \<not> is_space c" and "contains tok s"
  shows "contains tok (strip s)"
proof -
  from assms(1,2) have h: "\<not> is_space (hd tok)" and l: "\<not> is_space (hd (rev tok))"
    by (simp_all add: hd_rev)
  from contains_dropWhile [OF assms(1) h assms(3)]
  have "contains (rev tok) (rev (dropWhile is_space s))" by (simp add: contains_rev)
  from contains_dropWhile [OF _ l this] assms(1)
  have "contains (rev tok) (dropWhile is_space (rev (dropWhile is_space s)))" by simp
  then show ?thesis unfolding strip_def
    using contains_rev [of tok "rev (dropWhile is_space (rev (dropWhile is_space s)))"] by simp
qed

lemma contains_dropWhile_sub: "contains tok (dropWhile P s) \<Longrightarrow> contains tok s"
proof -
  assume "contains tok (dropWhile P s)"
  then obtain a b where "dropWhile P s = a @ tok @ b" by (auto simp: contains_iff)
  then have "s = (takeWhile P s @ a) @ tok @ b"
    by (metis append.assoc takeWhile_dropWhile_id)
  then show ?thesis unfolding contains_iff by blast
qed

lemma contains_strip_sub: "contains tok (strip s) \<Longrightarrow> contains tok s"
proof -
  assume "contains tok (strip s)"
  then have "contains (rev tok) (dropWhile is_space (rev (dropWhile is_space s)))"
    unfolding strip_def using contains_rev [of tok "rev (dropWhile is_space (rev (dropWhile is_space s)))"]
    by simp
  then have "contains (rev tok) (rev (dropWhile is_space s))" by (rule contains_dropWhile_sub)
  then have "contains tok (dropWhile is_space s)" by (simp add: contains_rev)
  then show ?thesis by (rule contains_dropWhile_sub)
qed

lemma sanitize_shrinks:
  assumes tok: "tok \<in> {''```sql'', ''```'', ''*/'', ''SQL:''}" and c: "contains tok x"
  shows "length (non_space (replace_empty ''SQL:'' (replace_empty ''*/''
           (replace_empty ''```'' (replace_empty ''```sql'' x))))) < length (non_space x)"
proof -
  let ?y1 = "replace_empty ''```sql'' x"
  let ?y2 = "replace_empty ''```'' ?y1"
  let ?y3 = "replace_empty ''*/'' ?y2"
  let ?y4 = "replace_empty ''SQL:'' ?y3"
  have le1: "length (non_space ?y1) \<le> length (non_space x)"
    and le2: "length (non_space ?y2) \<le> length (non_space ?y1)"
    and le3: "length (non_space ?y3) \<le> length (non_space ?y2)"
    and le4: "length (non_space ?y4) \<le> length (non_space ?y3)"
    by (rule replace_empty_le)+
  have s1: "length (non_space ?y1) < length (non_space x)" if "contains ''```sql'' x"
    using that by (intro replace_empty_less) (simp_all add: is_space_def)
  have s2: "length (non_space ?y2) < length (non_space ?y1)" if "contains ''```'' ?y1"
    using that by (intro replace_empty_less) (simp_all add: is_space_def)
  have s3: "length (non_space ?y3) < length (non_space ?y2)" if "contains ''*/'' ?y2"
    using that by (intro replace_empty_less) (simp_all add: is_space_def)
  have s4: "length (non_space ?y4) < length (non_space ?y3)" if "contains ''SQL:'' ?y3"
    using that by (intro replace_empty_less) (simp_all add: is_space_def)
  have u1: "?y1 = x" if "\<not> contains ''```sql'' x" using that by (rule replace_empty_absent)
  have u2: "?y2 = ?y1" if "\<not> contains ''```'' ?y1" using that by (rule replace_empty_absent)
  have u3: "?y3 = ?y2" if "\<not> contains ''*/'' ?y2" using that by (rule replace_empty_absent)
  show ?thesis
  proof (cases "contains ''```sql'' x")
    case True
    from s1 [OF True] le2 le3 le4 show ?thesis by linarith
  next
    case n1: False
    note e1 = u1 [OF n1]
    show ?thesis
    proof (cases "contains ''```'' ?y1")
      case True
      from s2 [OF True] le1 le3 le4 show ?thesis by linarith
    next
      case n2: False
      note e2 = u2 [OF n2]
      show ?thesis
      proof (cases "contains ''*/'' ?y2")
        case True
        from s3 [OF True] le1 le2 le4 show ?thesis by linarith
      next
        case n3: False
        note e3 = u3 [OF n3]
        from n1 have t1: "tok \<noteq> ''```sql''" using c by auto
        from n2 have t2: "tok \<noteq> ''```''" using c e1 by auto
        from n3 have t3: "tok \<noteq> ''*/''" using c e1 e2 by auto
        from tok t1 t2 t3 have "tok = ''SQL:''" by blast
        with c e1 e2 e3 have "contains ''SQL:'' ?y3" by simp
        from s4 [OF this] le1 le2 le3 show ?thesis by linarith
      qed
    qed
  qed
qed

lemma label_shrinks:
  assumes tok: "tok \<in> {''*/'', ''SQL:''}" and c: "contains tok y"
  shows "length (non_space (replace_empty ''SQL:'' (replace_empty ''*/'' y)))
           < length (non_space y)"
proof -
  let ?y3 = "replace_empty ''*/'' y"
  let ?y4 = "replace_empty ''SQL:'' ?y3"
  have le3: "length (non_space ?y3) \<le> length (non_space y)"
    and le4: "length (non_space ?y4) \<le> length (non_space ?y3)"
    by (rule replace_empty_le)+
  have s3: "length (non_space ?y3) < length (non_space y)" if "contains ''*/'' y"
    using that by (intro replace_empty_less) (simp_all add: is_space_def)
  have s4: "length (non_space ?y4) < length (non_space ?y3)" if "contains ''SQL:'' ?y3"
    using that by (intro replace_empty_less) (simp_all add: is_space_def)
  show ?thesis
  proof (cases "contains ''*/'' y")
    case True
    from s3 [OF True] le4 show ?thesis by linarith
  next
    case False
    then have e3: "?y3 = y" by (rule replace_empty_absent)
    from False c tok have "tok = ''SQL:''" by auto
    with c e3 have "contains ''SQL:'' ?y3" by simp
    from s4 [OF this] le3 show ?thesis by linarith
  qed
qed

lemma token_plain:
  "tok \<in> {''```sql'', ''```'', ''*/'', ''SQL:''} \<Longrightarrow> tok \<noteq> [] \<and> (\<forall>c\<in>set tok. \<not> is_space c)"
  by (auto simp: is_space_def)

lemma stored_sql_cases:
  assumes "llm (generation_prompt st) (ext w) = (Inr content, s')"
  shows "out_sql_query (fst (generate_sql_node llm st w)) = Some []
       \<or> out_sql_query (fst (generate_sql_node llm st w)) = Some (sanitize (strip content))"
  by (simp add: generate_sql_node_content [where llm = llm and st = st and w = w, OF assms])

lemma replace_empty_token:
  "tok \<noteq> [] \<Longrightarrow> replace_empty tok (tok @ r) = replace_empty tok r"
  by (cases tok) (simp_all add: startswith_def)

lemma replace_empty_headless:
  "tok \<noteq> [] \<Longrightarrow> hd tok \<notin> set s \<Longrightarrow> replace_empty tok s = s"
  using replace_keeps_prefix [of tok s "[]"] by simp

lemma strip_fixed:
  assumes "s = [] \<or> (\<not> is_space (hd s) \<and> \<not> is_space (last s))"
  shows "strip s = s"
proof (cases s)
  case Nil
  then show ?thesis by (simp add: strip_def)
next
  case (Cons c cs)
  with assms have h: "\<not> is_space (hd s)" and l: "\<not> is_space (last s)" by auto
  from h Cons have 1: "dropWhile is_space s = s" by simp
  from Cons have ne: "s \<noteq> []" by simp
  then have "rev s \<noteq> []" by simp
  moreover from l have "\<not> is_space (hd (rev s))" using hd_rev [of s] ne by simp
  ultimately have 2: "dropWhile is_space (rev s) = rev s" by (cases "rev s") auto
  show ?thesis by (simp add: strip_def 1 2)
qed

lemma strip_ends:
  "strip s = [] \<or> (\<not> is_space (hd (strip s)) \<and> \<not> is_space (last (strip s)))"
proof (cases "strip s = []")
  case True
  then show ?thesis by simp
next
  case False
  let ?a = "dropWhile is_space s"
  let ?b = "dropWhile is_space (rev ?a)"
  have s: "strip s = rev ?b" by (simp add: strip_def)
  with False have b: "?b \<noteq> []" by simp
  then have "\<not> is_space (hd ?b)" by (rule hd_dropWhile)
  then have l: "\<not> is_space (last (strip s))" using b by (simp add: s last_rev)
  have a: "?a \<noteq> []"
  proof
    assume e: "?a = []"
    show False using b unfolding e by simp
  qed
  then have ha: "\<not> is_space (hd ?a)" by (rule hd_dropWhile)
  have "rev ?a = takeWhile is_space (rev ?a) @ ?b" by simp
  then have "last (rev ?a) = last ?b" using b by (metis last_appendR)
  then have "last ?b = hd ?a" using a by (simp add: last_rev)
  then have "hd (strip s) = hd ?a" using b by (simp add: s hd_rev)
  with ha l show ?thesis by simp
qed

lemma strip_strip: "strip (strip s) = strip s"
  by (rule strip_fixed) (rule strip_ends)

lemma replace_empty_first:
  assumes ne: "tok \<noteq> []"
  shows "\<not> contains tok (a @ butlast tok) \<Longrightarrow>
           replace_empty tok (a @ tok @ b) = a @ replace_empty tok b"
proof (induction a)
  case Nil
  then show ?case using ne by (simp add: replace_empty_token)
next
  case (Cons c a)
  from Cons.prems have ns: "\<not> startswith (c # a @ butlast tok) tok"
    and rest: "\<not> contains tok (a @ butlast tok)" by simp_all
  have len: "length tok \<le> length (c # a @ butlast tok)" by simp
  have "c # a @ tok @ b = (c # a @ butlast tok) @ ([last tok] @ b)"
    using ne by (simp add: append_butlast_last_id [symmetric] del: append_butlast_last_id)
  then have "take (length tok) (c # a @ tok @ b) = take (length tok) (c # a @ butlast tok)"
    using len by (simp only: take_append) simp
  with ns have "\<not> startswith (c # a @ tok @ b) tok" by (simp add: startswith_def)
  with Cons.IH [OF rest] show ?case by simp
qed

lemma replace_empty_joined:
  assumes "tok \<noteq> []" and "\<not> contains tok q"
  shows "list_all (\<lambda>p. \<not> contains tok (p @ butlast tok)) ps \<Longrightarrow>
           replace_empty tok (joined tok ps q) = concat ps @ q"
proof (induction ps)
  case Nil
  then show ?case using assms(2) by (simp add: joined_def replace_empty_absent)
next
  case (Cons p ps)
  have "replace_empty tok (joined tok (p # ps) q)
      = replace_empty tok (p @ tok @ joined tok ps q)"
    by (simp add: joined_def)
  also have "\<dots> = p @ replace_empty tok (joined tok ps q)"
    using Cons.prems by (intro replace_empty_first [OF assms(1)]) simp
  also have "\<dots> = p @ concat ps @ q" using Cons by simp
  finally show ?case by simp
qed

lemma sanitize_joined:
  assumes tok: "tok \<in> set sanitize_tokens"
    and t: "strip content = joined tok ps q"
    and ps: "list_all (\<lambda>p. \<not> contains tok (p @ butlast tok)) ps" and q: "\<not> contains tok q"
    and before: "list_all (\<lambda>t. \<not> contains t (strip content))
                   (takeWhile (\<lambda>t. t \<noteq> tok) sanitize_tokens)"
    and after: "list_all (\<lambda>t. \<not> contains t (concat ps @ q))
                  (tl (dropWhile (\<lambda>t. t \<noteq> tok) sanitize_tokens))"
  shows "sanitize (strip content) = strip (concat ps @ q)"
proof -
  let ?t = "joined tok ps q"
  let ?c = "concat ps @ q"
  have "strip (strip content) = strip content" by (rule strip_strip)
  also have "\<dots> = ?t" by (rule t)
  finally have inner: "strip (strip content) = ?t" .
  from tok have ne: "tok \<noteq> []" by (auto simp: sanitize_tokens_def)
  have del: "replace_empty tok ?t = ?c" by (rule replace_empty_joined [OF ne q ps])
  from tok consider "tok = ''```sql''" | "tok = ''```''" | "tok = ''*/''" | "tok = ''SQL:''"
    by (auto simp: sanitize_tokens_def)
  then have "replace_empty ''SQL:'' (replace_empty ''*/'' (replace_empty ''```''
               (replace_empty ''```sql'' ?t))) = ?c"
  proof cases
    case 1
    from after have "\<not> contains ''```'' ?c" and "\<not> contains ''*/'' ?c"
      and "\<not> contains ''SQL:'' ?c" by (simp_all add: 1 sanitize_tokens_def)
    then have "replace_empty ''```'' ?c = ?c" and "replace_empty ''*/'' ?c = ?c"
      and "replace_empty ''SQL:'' ?c = ?c" by (simp_all add: replace_empty_absent)
    moreover from del have "replace_empty ''```sql'' ?t = ?c" by (simp only: 1)
    ultimately show ?thesis by (simp only:)
  next
    case 2
    from before have "\<not> contains ''```sql'' ?t" by (simp add: 2 sanitize_tokens_def t)
    then have "replace_empty ''```sql'' ?t = ?t" by (rule replace_empty_absent)
    moreover from after have "\<not> contains ''*/'' ?c" and "\<not> contains ''SQL:'' ?c"
      by (simp_all add: 2 sanitize_tokens_def)
    then have "replace_empty ''*/'' ?c = ?c" and "replace_empty ''SQL:'' ?c = ?c"
      by (simp_all add: replace_empty_absent)
    moreover from del have "replace_empty ''```'' ?t = ?c" by (simp only: 2)
    ultimately show ?thesis by (simp only:)
  next
    case 3
    from before have "\<not> contains ''```sql'' ?t" and "\<not> contains ''```'' ?t"
      by (simp_all add: 3 sanitize_tokens_def t)
    then have "replace_empty ''```sql'' ?t = ?t" and "replace_empty ''```'' ?t = ?t"
      by (simp_all add: replace_empty_absent)
    moreover from after have "\<not> contains ''SQL:'' ?c" by (simp add: 3 sanitize_tokens_def)
    then have "replace_empty ''SQL:'' ?c = ?c" by (rule replace_empty_absent)
    moreover from del have "replace_empty ''*/'' ?t = ?c" by (simp only: 3)
    ultimately show ?thesis by (simp only:)
  next
    case 4
    from before have "\<not> contains ''```sql'' ?t" and "\<not> contains ''```'' ?t"
      and "\<not> contains ''*/'' ?t" by (simp_all add: 4 sanitize_tokens_def t)
    then have "replace_empty ''```sql'' ?t = ?t" and "replace_empty ''```'' ?t = ?t"
      and "replace_empty ''*/'' ?t = ?t" by (simp_all add: replace_empty_absent)
    moreover from del have "replace_empty ''SQL:'' ?t = ?c" by (simp only: 4)
    ultimately show ?thesis by (simp only:)
  qed
  then show ?thesis by (simp only: sanitize_def inner)
qed

text \<open>
  C10 as stated: sanitization removes every occurrence of the tokens anywhere in the
  generated text. Each \<open>replace\<close> is one pass from the left over the text as the calls
  before it left it, and a token that a deletion forms anew is not deleted: the text
  below holds \<open>*/\<close> inside \<open>**//\<close>, which the pass deletes, and the stored \<open>sql_query\<close>
  still holds the \<open>*/\<close> made of the two characters left.
\<close>

theorem nested_token_counterexample:
  "contains ''*/'' nested_query
   \<and> out_sql_query (fst (generate_sql_node (fixed_llm nested_query) (inputs ''q'' ''t'')
        (new_world ())))
       = Some (''SELECT '' @ [CHR 0x27] @ ''*/'' @ [CHR 0x27] @ '' FROM crops;'')
   \<and> contains ''*/'' (''SELECT '' @ [CHR 0x27] @ ''*/'' @ [CHR 0x27] @ '' FROM crops;'')"
proof (intro conjI)
  show "contains ''*/'' nested_query" by code_simp
  have s: "sanitize (strip nested_query)
      = ''SELECT '' @ [CHR 0x27] @ ''*/'' @ [CHR 0x27] @ '' FROM crops;''" by code_simp
  have v: "\<not> invalid_sql (''SELECT '' @ [CHR 0x27] @ ''*/'' @ [CHR 0x27] @ '' FROM crops;'')"
    by code_simp
  show "out_sql_query (fst (generate_sql_node (fixed_llm nested_query) (inputs ''q'' ''t'')
        (new_world ())))
       = Some (''SELECT '' @ [CHR 0x27] @ ''*/'' @ [CHR 0x27] @ '' FROM crops;'')"
    using v unfolding generate_sql_node_fixed s by simp
  show "contains ''*/'' (''SELECT '' @ [CHR 0x27] @ ''*/'' @ [CHR 0x27] @ '' FROM crops;'')"
    by code_simp
qed

text \<open>
  C10, amended: sanitization deletes the tokens wherever they stand in the generated
  text, not only around it. When the stripped text is a list of pieces separated by one
  of the tokens, the token occurring nowhere else in it (not inside a piece, not across
  the end of one), the tokens deleted earlier not occurring in the text and those
  deleted later not occurring in the concatenated pieces, then every one of the
  occurrences is deleted and the pieces are kept: the sanitized text is the stripped
  concatenation of the pieces, and that is what the generation node stores as
  \<open>sql_query\<close> (the empty string when validation rejects it). And for any generated text
  that contains one of the tokens, the sanitized text has fewer non-whitespace
  characters and the stored \<open>sql_query\<close> differs from the text with only its surrounding
  whitespace removed, and, for \<open>*/\<close> and \<open>SQL:\<close>, from the text with only whitespace and
  fences removed.
\<close>

theorem sanitize_deletes_all_occurrences:
  assumes "llm (generation_prompt st) (ext w) = (Inr content, s')"
  shows "(tok \<in> set sanitize_tokens \<and> strip content = joined tok ps q
            \<and> list_all (\<lambda>p. \<not> contains tok (p @ butlast tok)) ps \<and> \<not> contains tok q
            \<and> list_all (\<lambda>t. \<not> contains t (strip content))
                 (takeWhile (\<lambda>t. t \<noteq> tok) sanitize_tokens)
            \<and> list_all (\<lambda>t. \<not> contains t (concat ps @ q))
                 (tl (dropWhile (\<lambda>t. t \<noteq> tok) sanitize_tokens)) \<longrightarrow>
            sanitize (strip content) = strip (concat ps @ q)
            \<and> out_sql_query (fst (generate_sql_node llm st w))
                = Some (if invalid_sql (strip (concat ps @ q)) then []
                        else strip (concat ps @ q)))
       \<and> (tok \<in> set sanitize_tokens \<and> contains tok content \<longrightarrow>
            length (non_space (sanitize (strip content))) < length (non_space content)
            \<and> out_sql_query (fst (generate_sql_node llm st w)) \<noteq> Some (strip content))
       \<and> (tok \<in> {''*/'', ''SQL:''} \<and> contains tok (fences_only (strip content)) \<longrightarrow>
            out_sql_query (fst (generate_sql_node llm st w))
              \<noteq> Some (fences_only (strip content)))"
proof (intro conjI impI)
  assume a: "tok \<in> set sanitize_tokens \<and> strip content = joined tok ps q
            \<and> list_all (\<lambda>p. \<not> contains tok (p @ butlast tok)) ps \<and> \<not> contains tok q
            \<and> list_all (\<lambda>t. \<not> contains t (strip content))
                 (takeWhile (\<lambda>t. t \<noteq> tok) sanitize_tokens)
            \<and> list_all (\<lambda>t. \<not> contains t (concat ps @ q))
                 (tl (dropWhile (\<lambda>t. t \<noteq> tok) sanitize_tokens))"
  then have 1: "tok \<in> set sanitize_tokens"
    and 2: "strip content = joined tok ps q"
    and 3: "list_all (\<lambda>p. \<not> contains tok (p @ butlast tok)) ps" and 4: "\<not> contains tok q"
    and 5: "list_all (\<lambda>t. \<not> contains t (strip content))
                 (takeWhile (\<lambda>t. t \<noteq> tok) sanitize_tokens)"
    and 6: "list_all (\<lambda>t. \<not> contains t (concat ps @ q))
                 (tl (dropWhile (\<lambda>t. t \<noteq> tok) sanitize_tokens))" by blast+
  show s: "sanitize (strip content) = strip (concat ps @ q)"
    by (rule sanitize_joined [OF 1 2 3 4 5 6])
  show "out_sql_query (fst (generate_sql_node llm st w))
          = Some (if invalid_sql (strip (concat ps @ q)) then [] else strip (concat ps @ q))"
    by (simp add: generate_sql_node_content [where llm = llm and st = st and w = w, OF assms] s)
next
  assume a: "tok \<in> set sanitize_tokens \<and> contains tok content"
  then have tok: "tok \<in> {''```sql'', ''```'', ''*/'', ''SQL:''}"
    by (simp add: sanitize_tokens_def)
  from token_plain [OF tok] have ne: "tok \<noteq> []" and pl: "\<forall>c\<in>set tok. \<not> is_space c"
    by blast+
  from a have c1: "contains tok (strip content)" by (intro contains_strip [OF ne pl]) simp
  then have c2: "contains tok (strip (strip content))" by (rule contains_strip [OF ne pl])
  from sanitize_shrinks [OF tok c2]
  show lt: "length (non_space (sanitize (strip content))) < length (non_space content)"
    by (simp add: sanitize_def non_space_strip)
  from c1 ne have "strip content \<noteq> []" by (cases "strip content") auto
  moreover from lt have "sanitize (strip content) \<noteq> strip content"
    using non_space_strip [of content] by auto
  ultimately show "out_sql_query (fst (generate_sql_node llm st w)) \<noteq> Some (strip content)"
    using stored_sql_cases [where llm = llm and st = st and w = w, OF assms] by auto
next
  assume a: "tok \<in> {''*/'', ''SQL:''} \<and> contains tok (fences_only (strip content))"
  let ?y2 = "replace_empty ''```'' (replace_empty ''```sql'' (strip (strip content)))"
  from a have ne: "tok \<noteq> []" by auto
  from a have "contains tok (strip ?y2)" by (simp add: fences_only_def)
  then have "contains tok ?y2" by (rule contains_strip_sub)
  moreover from a have "tok \<in> {''*/'', ''SQL:''}" by simp
  ultimately have "length (non_space (replace_empty ''SQL:'' (replace_empty ''*/'' ?y2)))
      < length (non_space ?y2)" by (rule label_shrinks [rotated])
  then have "length (non_space (sanitize (strip content)))
      < length (non_space (fences_only (strip content)))"
    by (simp add: sanitize_def fences_only_def non_space_strip)
  then have "sanitize (strip content) \<noteq> fences_only (strip content)" by auto
  moreover from a ne have "fences_only (strip content) \<noteq> []"
    by (cases "fences_only (strip content)") auto
  ultimately show "out_sql_query (fst (generate_sql_node llm st w))
      \<noteq> Some (fences_only (strip content))"
    using stored_sql_cases [where llm = llm and st = st and w = w, OF assms] by auto
qed

theorem sanitize_deletes_all_occurrences_witness:
  "fixed_llm quoted_query (generation_prompt (inputs ''q'' ''t'')) (ext (new_world ()))
     = (Inr quoted_query, ())
   \<and> ''*/'' \<in> set sanitize_tokens
   \<and> strip quoted_query
       = joined ''*/'' [''SELECT '' @ [CHR 0x27] @ ''a'', ''b''] (''c'' @ [CHR 0x27] @ '' FROM crops;'')
   \<and> list_all (\<lambda>p. \<not> contains ''*/'' (p @ butlast ''*/''))
         [''SELECT '' @ [CHR 0x27] @ ''a'', ''b'']
   \<and> \<not> contains ''*/'' (''c'' @ [CHR 0x27] @ '' FROM crops;'')
   \<and> list_all (\<lambda>t. \<not> contains t (strip quoted_query))
         (takeWhile (\<lambda>t. t \<noteq> ''*/'') sanitize_tokens)
   \<and> list_all (\<lambda>t. \<not> contains t
           (concat [''SELECT '' @ [CHR 0x27] @ ''a'', ''b''] @ ''c'' @ [CHR 0x27] @ '' FROM crops;''))
         (tl (dropWhile (\<lambda>t. t \<noteq> ''*/'') sanitize_tokens))
   \<and> contains ''*/'' quoted_query
   \<and> ''*/'' \<in> {''*/'', ''SQL:''} \<and> contains ''*/'' (fences_only (strip quoted_query))
   \<and> out_sql_query (fst (generate_sql_node (fixed_llm quoted_query) (inputs ''q'' ''t'')
        (new_world ())))
       = Some (''SELECT '' @ [CHR 0x27] @ ''abc'' @ [CHR 0x27] @ '' FROM crops;'')
   \<and> out_sql_query (fst (generate_sql_node (fixed_llm quoted_query) (inputs ''q'' ''t'')
        (new_world ()))) \<noteq> Some (strip quoted_query)
   \<and> out_sql_query (fst (generate_sql_node (fixed_llm quoted_query) (inputs ''q'' ''t'')
        (new_world ()))) \<noteq> Some (fences_only (strip quoted_query))"
proof -
  let ?ps = "[''SELECT '' @ [CHR 0x27] @ ''a'', ''b'']"
  let ?q = "''c'' @ [CHR 0x27] @ '' FROM crops;''"
  let ?out = "out_sql_query (fst (generate_sql_node (fixed_llm quoted_query) (inputs ''q'' ''t'')
        (new_world ())))"
  have h: "fixed_llm quoted_query (generation_prompt (inputs ''q'' ''t'')) (ext (new_world ()))
     = (Inr quoted_query, ())" by (simp add: fixed_llm_def)
  have m1: "''*/'' \<in> set sanitize_tokens" by (simp add: sanitize_tokens_def)
  have m2: "''*/'' \<in> {''*/'', ''SQL:''}" by simp
  have j: "strip quoted_query = joined ''*/'' ?ps ?q" by code_simp
  have f1: "list_all (\<lambda>p. \<not> contains ''*/'' (p @ butlast ''*/'')) ?ps" by code_simp
  have f2: "\<not> contains ''*/'' ?q" by code_simp
  have f3: "list_all (\<lambda>t. \<not> contains t (strip quoted_query))
         (takeWhile (\<lambda>t. t \<noteq> ''*/'') sanitize_tokens)" by code_simp
  have f4: "list_all (\<lambda>t. \<not> contains t (concat ?ps @ ?q))
         (tl (dropWhile (\<lambda>t. t \<noteq> ''*/'') sanitize_tokens))" by code_simp
  have c1: "contains ''*/'' quoted_query" by code_simp
  have c2: "contains ''*/'' (fences_only (strip quoted_query))" by code_simp
  have v: "\<not> invalid_sql (strip (concat ?ps @ ?q))" by code_simp
  have r: "strip (concat ?ps @ ?q) = ''SELECT '' @ [CHR 0x27] @ ''abc'' @ [CHR 0x27] @ '' FROM crops;''"
    by code_simp
  note t = sanitize_deletes_all_occurrences [where llm = "fixed_llm quoted_query"
      and st = "inputs ''q'' ''t''" and w = "new_world ()" and tok = "''*/''"
      and ps = ?ps and q = ?q, OF h]
  from t m1 j f1 f2 f3 f4 have "?out = Some (if invalid_sql (strip (concat ?ps @ ?q)) then []
      else strip (concat ?ps @ ?q))" by blast
  with v have o1: "?out = Some (strip (concat ?ps @ ?q))" by simp
  from t m1 c1 have o2: "?out \<noteq> Some (strip quoted_query)" by blast
  from t m2 c2 have o3: "?out \<noteq> Some (fences_only (strip quoted_query))" by blast
  from h m1 j f1 f2 f3 f4 c1 m2 c2 o1 [unfolded r] o2 o3 show ?thesis by (intro conjI)
qed

end
